theory Spec2Isabelle
  imports Main "HOL-Library.Word" "HOL-Library.Code_Target_Numeral"
begin

unbundle bit_operations_syntax

section \<open>Conventions\<close>

text \<open>
  This theory embeds the device configuration script engine of \<^verbatim>\<open>bmp-script.c\<close>.

  A C string is a \<^typ>\<open>string\<close> without the terminating NUL: the end of the list is the
  terminator, and reading the character at the end of the list gives NUL. A pointer into
  a string is the suffix of the list that starts there.

  \<^verbatim>\<open>char\<close> is signed, as on the x86 desktop targets of the program, so a byte of 128 or
  more compares below the space character. The classification functions of
  \<^verbatim>\<open>ctype.h\<close> are those of the C locale. \<^verbatim>\<open>unsigned long\<close> has 64 bits (LP64).
  Assertions are active (no \<^verbatim>\<open>NDEBUG\<close>): a failed assertion is the error
  \<open>AssertFail\<close>. Memory allocation is taken to succeed.
\<close>

datatype error = AssertFail | OutOfBounds

type_synonym uint32_t = "32 word"
type_synonym uint8_t = "8 word"

definition le_space :: "char \<Rightarrow> bool" where
  \<comment> \<open>\<^verbatim>\<open>c <= ' '\<close> on a signed char\<close>
  "le_space c = ((of_char c :: nat) \<le> 32 \<or> (of_char c :: nat) \<ge> 128)"

definition nth0 :: "string \<Rightarrow> nat \<Rightarrow> char" where
  \<comment> \<open>\<^verbatim>\<open>s[i]\<close> for \<open>i\<close> up to the terminator\<close>
  "nth0 s i = (if i < length s then s ! i else CHR 0x00)"

definition isdigit :: "char \<Rightarrow> bool" where
  "isdigit c = (48 \<le> (of_char c :: nat) \<and> (of_char c :: nat) \<le> 57)"

definition isalpha :: "char \<Rightarrow> bool" where
  "isalpha c = ((65 \<le> (of_char c :: nat) \<and> (of_char c :: nat) \<le> 90)
              \<or> (97 \<le> (of_char c :: nat) \<and> (of_char c :: nat) \<le> 122))"

definition isalnum :: "char \<Rightarrow> bool" where
  "isalnum c = (isalpha c \<or> isdigit c)"

definition toupper :: "char \<Rightarrow> char" where
  "toupper c = (if 97 \<le> (of_char c :: nat) \<and> (of_char c :: nat) \<le> 122
                then char_of ((of_char c :: nat) - 32) else c)"

definition tolower :: "char \<Rightarrow> char" where
  "tolower c = (if 65 \<le> (of_char c :: nat) \<and> (of_char c :: nat) \<le> 90
                then char_of ((of_char c :: nat) + 32) else c)"

section \<open>Matcher\<close>

definition skipleading :: "string \<Rightarrow> string" where
  "skipleading str = dropWhile le_space str"

definition skiptrailing :: "string \<Rightarrow> string" where
  \<comment> \<open>the argument is the text between \<^verbatim>\<open>base\<close> and \<^verbatim>\<open>end\<close>; the result is the text
      between \<^verbatim>\<open>base\<close> and the returned pointer\<close>
  "skiptrailing seg = rev (dropWhile le_space (rev seg))"

fun architecture_match :: "string \<Rightarrow> string \<Rightarrow> bool" where
  "architecture_match [] [] = True"
| "architecture_match (a # as) (m # ms) =
     (if a \<noteq> CHR ''x'' \<and> toupper a \<noteq> toupper m then False
      else architecture_match as ms)"
| "architecture_match [] (m # ms) = False"
| "architecture_match (a # as) [] = False"

definition strrchr :: "string \<Rightarrow> char \<Rightarrow> (string \<times> string) option" where
  \<comment> \<open>the text before the last occurrence and the text from it on\<close>
  "strrchr s c =
     (if c \<in> set s
      then Some (rev (tl (dropWhile (\<lambda>x. x \<noteq> c) (rev s))),
                 c # rev (takeWhile (\<lambda>x. x \<noteq> c) (rev s)))
      else None)"

definition family_namelen :: "string \<Rightarrow> error + nat" where
  "family_namelen mcufamily =
     (case strrchr mcufamily CHR '' '' of
        None \<Rightarrow> Inr (length mcufamily)
      | Some (front, separator) \<Rightarrow>
          if nth0 separator 1 = CHR ''M'' \<and> isdigit (nth0 separator 2) then
            (let namelen = length (skiptrailing front)
             in if namelen > 0 \<and> \<not> le_space (mcufamily ! (namelen - 1))
                then Inr namelen else Inl AssertFail)
          else Inr (length mcufamily))"

definition next_item :: "string \<Rightarrow> string" where
  \<comment> \<open>\<^verbatim>\<open>head = (*separator != '\0') ? skipleading(separator + 1) : separator\<close>, where
      \<^verbatim>\<open>separator\<close> is the first comma from \<^verbatim>\<open>head\<close> on, or the terminator\<close>
  "next_item head =
     (let separator = dropWhile (\<lambda>c. c \<noteq> CHR '','') head
      in if separator \<noteq> [] then skipleading (tl separator) else separator)"

lemma length_next_item: "head \<noteq> [] \<Longrightarrow> length (next_item head) < length head"
proof -
  assume ne: "head \<noteq> []"
  let ?sep = "dropWhile (\<lambda>c. c \<noteq> CHR '','') head"
  have a: "length ?sep \<le> length head"
    by (rule length_dropWhile_le)
  have b: "length (skipleading (tl ?sep)) \<le> length (tl ?sep)"
    unfolding skipleading_def by (rule length_dropWhile_le)
  show ?thesis
  proof (cases "?sep = []")
    case True
    then have "next_item head = []" by (simp add: next_item_def)
    with ne show ?thesis by simp
  next
    case False
    then have c: "length (tl ?sep) < length ?sep" by (cases ?sep) auto
    from False have "next_item head = skipleading (tl ?sep)"
      by (simp add: next_item_def Let_def)
    then have "length (next_item head) = length (skipleading (tl ?sep))" by simp
    with a b c show ?thesis by linarith
  qed
qed

function mcu_match_exact :: "string \<Rightarrow> nat \<Rightarrow> string \<Rightarrow> bool" where
  "mcu_match_exact mcufamily namelen head =
     (if head = [] then False
      else
        let matchname = skiptrailing (takeWhile (\<lambda>c. c \<noteq> CHR '','') head);
            matchlen = length matchname
        in if matchlen = namelen \<and> matchlen < 50 \<and> architecture_match matchname mcufamily
           then True
           else mcu_match_exact mcufamily namelen (next_item head))"
  by pat_completeness auto
termination
  by (relation "measure (\<lambda>(f, n, h). length h)") (auto simp: length_next_item)

declare mcu_match_exact.simps [simp del]

function mcu_match_prefix :: "string \<Rightarrow> nat \<Rightarrow> string \<Rightarrow> error + bool" where
  "mcu_match_prefix mcufamily namelen head =
     (if head = [] then Inr False
      else
        let tail = length (skiptrailing (takeWhile (\<lambda>c. c \<noteq> CHR '','') head));
            matchlen = length (takeWhile (\<lambda>c. c \<noteq> CHR ''*'') head)
        in if CHR ''*'' \<in> set head \<and> matchlen < tail then
             if \<not> (nth0 head (matchlen + 1) = CHR '','' \<or> nth0 head (matchlen + 1) = CHR '' ''
                    \<or> nth0 head (matchlen + 1) = CHR 0x00) then Inl AssertFail
             else if matchlen = 0 then Inr True
             else if namelen > matchlen \<and> matchlen < 50
                     \<and> architecture_match (take matchlen head) (take matchlen mcufamily)
             then Inr True
             else mcu_match_prefix mcufamily namelen (next_item head)
           else mcu_match_prefix mcufamily namelen (next_item head))"
  by pat_completeness auto
termination
  by (relation "measure (\<lambda>(f, n, h). length h)") (auto simp: length_next_item)

declare mcu_match_prefix.simps [simp del]

definition mcu_match :: "string \<Rightarrow> string \<Rightarrow> error + bool" where
  "mcu_match mcufamily list =
     (if \<not> (length mcufamily > 0 \<and> \<not> le_space (hd mcufamily) \<and> \<not> le_space (last mcufamily))
      then Inl AssertFail
      else case family_namelen mcufamily of
             Inl e \<Rightarrow> Inl e
           | Inr namelen \<Rightarrow>
               if mcu_match_exact mcufamily namelen (skipleading list) then Inr True
               else mcu_match_prefix mcufamily namelen (skipleading list))"

section \<open>Data model\<close>

record REG_DEF =
  reg_name :: string
  reg_address :: uint32_t
  reg_size :: uint8_t
  reg_mcu_list :: string

record SCRIPT_DEF =
  def_name :: string
  def_mcu_list :: string
  def_script :: string

record SCRIPTLINE =
  line_address :: uint32_t
  line_value :: uint32_t
  line_size :: uint8_t
  line_oper :: char

text \<open>
  The field \<^verbatim>\<open>mcu_list\<close> of a register of the session list, \<^verbatim>\<open>NULL\<close> in the source
  and never read, is the empty string.

  A script keeps its lines as a list; the field \<^verbatim>\<open>count\<close> of the source is the length
  of that list. The same holds for the cache, whose \<^verbatim>\<open>lines\<close> pointer aliases the
  lines of a script in the list: scripts are never modified after insertion, and
  \<^verbatim>\<open>bmscript_clear\<close> resets the cache before it releases them, so the cache holds
  a copy here.
\<close>

record SCRIPT =
  script_name :: string
  script_lines :: "SCRIPTLINE list"

record REG_CACHE =
  cache_name :: "string option"
  cache_lines :: "SCRIPTLINE list"
  cache_index :: nat

record session =
  root_name :: "string option"
  scripts :: "SCRIPT list"
  cache :: REG_CACHE

definition mk_reg :: "string \<Rightarrow> uint32_t \<Rightarrow> uint8_t \<Rightarrow> string \<Rightarrow> REG_DEF" where
  "mk_reg n a s l = \<lparr>reg_name = n, reg_address = a, reg_size = s, reg_mcu_list = l\<rparr>"

definition register_defaults :: "REG_DEF list" where
  "register_defaults = [
     mk_reg ''SYSCON_SYSMEMREMAP'' 0x40048000 4 ''LPC8xx,LPC11xx*,LPC11Uxx,LPC12xx,LPC13xx'',
     mk_reg ''SYSCON_SYSMEMREMAP'' 0x40074000 4 ''LPC15xx'',
     mk_reg ''SCB_MEMMAP'' 0x400FC040 4 ''LPC17xx'',
     mk_reg ''SCB_MEMMAP'' 0xE01FC040 4 ''LPC21xx,LPC22xx,LPC23xx,LPC24xx'',
     mk_reg ''M4MEMMAP'' 0x40043100 4 ''LPC43xx*'',
     mk_reg ''RCC_APB2ENR'' 0x40021018 4 ''STM32F1*'',
     mk_reg ''AFIO_MAPR'' 0x40010004 4 ''STM32F1*'',
     mk_reg ''RCC_AHB1ENR'' 0x40023830 4 ''STM32F4*,STM32F7*'',
     mk_reg ''GPIOB_MODER'' 0x40020400 4 ''STM32F4*,STM32F7*'',
     mk_reg ''GPIOB_AFRL'' 0x40020420 4 ''STM32F4*,STM32F7*'',
     mk_reg ''GPIOB_OSPEEDR'' 0x40020408 4 ''STM32F4*,STM32F7*'',
     mk_reg ''GPIOB_PUPDR'' 0x4002040C 4 ''STM32F4*,STM32F7*'',
     mk_reg ''DBGMCU_CR'' 0xE0042004 4
       ''STM32F03,STM32F05,STM32F07,STM32F09,STM32F1*,STM32F2*,STM32F3*,STM32F4*,STM32F7*'',
     mk_reg ''TRACECLKDIV'' 0x400480AC 4 ''LPC13xx'',
     mk_reg ''TRACECLKDIV'' 0x400740D8 4 ''LPC15xx'',
     mk_reg ''IOCON_PIO0_9'' 0x40044024 4 ''LPC13xx'',
     mk_reg ''SCB_DHCSR'' 0xE000EDF0 4 ''*'',
     mk_reg ''SCB_DCRSR'' 0xE000EDF4 4 ''*'',
     mk_reg ''SCB_DCRDR'' 0xE000EDF8 4 ''*'',
     mk_reg ''SCB_DEMCR'' 0xE000EDFC 4 ''*'',
     mk_reg ''TPIU_SSPSR'' 0xE0040000 4 ''*'',
     mk_reg ''TPIU_CSPSR'' 0xE0040004 4 ''*'',
     mk_reg ''TPIU_ACPR'' 0xE0040010 4 ''*'',
     mk_reg ''TPIU_SPPR'' 0xE00400F0 4 ''*'',
     mk_reg ''TPIU_FFCR'' 0xE0040304 4 ''*'',
     mk_reg ''TPIU_DEVID'' 0xE0040FC8 4 ''*'',
     mk_reg ''DWT_CTRL'' 0xE0001000 4 ''*'',
     mk_reg ''DWT_CYCCNT'' 0xE0001004 4 ''*'',
     mk_reg ''ITM_TER'' 0xE0000E00 4 ''*'',
     mk_reg ''ITM_TPR'' 0xE0000E40 4 ''*'',
     mk_reg ''ITM_TCR'' 0xE0000E80 4 ''*'',
     mk_reg ''ITM_LAR'' 0xE0000FB0 4 ''*'',
     mk_reg ''ITM_IWR'' 0xE0000EF8 4 ''*'',
     mk_reg ''ITM_IRR'' 0xE0000EFC 4 ''*'',
     mk_reg ''ITM_IMCR'' 0xE0000F00 4 ''*'',
     mk_reg ''ITM_LSR'' 0xE0000FB4 4 ''*'']"

definition NL :: string where
  \<comment> \<open>the \<^verbatim>\<open>\n\<close> of a C string literal\<close>
  "NL = [CHR 0x0A]"

definition script_defaults :: "SCRIPT_DEF list" where
  "script_defaults = [
     \<lparr>def_name = ''memremap'', def_mcu_list = ''LPC8xx,LPC11xx*,LPC11Uxx,LPC12xx,LPC13xx'',
      def_script = ''SYSCON_SYSMEMREMAP = 2''\<rparr>,
     \<lparr>def_name = ''memremap'', def_mcu_list = ''LPC15xx'',
      def_script = ''SYSCON_SYSMEMREMAP = 2''\<rparr>,
     \<lparr>def_name = ''memremap'', def_mcu_list = ''LPC17xx'',
      def_script = ''SCB_MEMMAP = 1''\<rparr>,
     \<lparr>def_name = ''memremap'', def_mcu_list = ''LPC21xx,LPC22xx,LPC23xx,LPC24xx'',
      def_script = ''SCB_MEMMAP = 1''\<rparr>,
     \<lparr>def_name = ''memremap'', def_mcu_list = ''LPC43xx*'',
      def_script = ''M4MEMMAP = 0''\<rparr>,
     \<lparr>def_name = ''swo_device'', def_mcu_list = ''STM32F1*'',
      def_script = ''RCC_APB2ENR |= 1 '' @ NL
                 @ ''AFIO_MAPR |= 0x2000000 '' @ NL
                 @ ''DBGMCU_CR |= 0x20 '' @ NL\<rparr>,
     \<lparr>def_name = ''swo_device'',
      def_mcu_list = ''STM32F03,STM32F05,STM32F07,STM32F09,STM32F2*,STM32F3*'',
      def_script = ''DBGMCU_CR |= 0x20 '' @ NL\<rparr>,
     \<lparr>def_name = ''swo_device'', def_mcu_list = ''STM32F4*,STM32F7*'',
      def_script = ''RCC_AHB1ENR |= 0x02 '' @ NL
                 @ ''GPIOB_MODER ~= 0x00c0 '' @ NL
                 @ ''GPIOB_MODER |= 0x0080 '' @ NL
                 @ ''GPIOB_AFRL ~= 0xf000 '' @ NL
                 @ ''GPIOB_OSPEEDR |= 0x00c0 '' @ NL
                 @ ''GPIOB_PUPDR ~= 0x00c0 '' @ NL
                 @ ''DBGMCU_CR |= 0x20 '' @ NL\<rparr>,
     \<lparr>def_name = ''swo_device'', def_mcu_list = ''LPC13xx'',
      def_script = ''TRACECLKDIV = 1 '' @ NL
                 @ ''IOCON_PIO0_9 = 0x93 '' @ NL\<rparr>,
     \<lparr>def_name = ''swo_device'', def_mcu_list = ''LPC15xx'',
      def_script = ''TRACECLKDIV = 1'' @ NL\<rparr>,
     \<lparr>def_name = ''swo_generic'', def_mcu_list = ''*'',
      def_script = ''SCB_DEMCR = 0x1000000 '' @ NL
                 @ ''TPIU_CSPSR = 1 '' @ NL
                 @ ''TPIU_SPPR = $0 '' @ NL
                 @ ''TPIU_ACPR = $1 '' @ NL
                 @ ''TPIU_FFCR = 0 '' @ NL
                 @ ''ITM_LAR = 0xC5ACCE55 '' @ NL
                 @ ''ITM_TCR = 0x11 '' @ NL
                 @ ''ITM_TPR = 0 '' @ NL\<rparr>,
     \<lparr>def_name = ''swo_generic'', def_mcu_list = ''[M0]'',
      def_script = ''$3 = $2 '' @ NL\<rparr>,
     \<lparr>def_name = ''swo_channels'', def_mcu_list = ''*'',
      def_script = ''ITM_TER = $0 '' @ NL\<rparr>,
     \<lparr>def_name = ''swo_channels'', def_mcu_list = ''[M0]'',
      def_script = ''$1 = $0 '' @ NL\<rparr>]"

definition SCRIPT_MAGIC :: uint32_t where
  \<comment> \<open>Modelled from the spec: the macro \<^verbatim>\<open>SCRIPT_MAGIC\<close> is defined in \<^verbatim>\<open>bmp-script.h\<close>,
      which is not among the sources; the value is the one the specification gives for
      the start of the parameter range.\<close>
  "SCRIPT_MAGIC = 0xFFFFFFF0"

section \<open>Parser\<close>

subsection \<open>The library function \<^verbatim>\<open>strtoul\<close> with base 0\<close>

definition isspace :: "char \<Rightarrow> bool" where
  "isspace c = ((of_char c :: nat) = 32 \<or> (9 \<le> (of_char c :: nat) \<and> (of_char c :: nat) \<le> 13))"

definition digit_value :: "char \<Rightarrow> nat" where
  \<comment> \<open>the value of a digit or letter; 36 for any other character\<close>
  "digit_value c =
     (let n = (of_char c :: nat)
      in if 48 \<le> n \<and> n \<le> 57 then n - 48
         else if 97 \<le> n \<and> n \<le> 122 then n - 87
         else if 65 \<le> n \<and> n \<le> 90 then n - 55
         else 36)"

definition strtoul :: "string \<Rightarrow> nat \<times> string" where
  \<comment> \<open>\<^verbatim>\<open>strtoul(nptr, &endptr, 0)\<close>: the \<^verbatim>\<open>unsigned long\<close> result and \<^verbatim>\<open>endptr\<close>\<close>
  "strtoul nptr =
     (let s = dropWhile isspace nptr;
          neg = (nth0 s 0 = CHR ''-'');
          s1 = (if nth0 s 0 = CHR ''-'' \<or> nth0 s 0 = CHR ''+'' then tl s else s);
          hex = (nth0 s1 0 = CHR ''0'' \<and> (nth0 s1 1 = CHR ''x'' \<or> nth0 s1 1 = CHR ''X'')
                 \<and> digit_value (nth0 s1 2) < 16);
          base = (if hex then 16 else if nth0 s1 0 = CHR ''0'' then 8 else 10);
          s2 = (if hex then drop 2 s1 else s1);
          ds = takeWhile (\<lambda>c. digit_value c < base) s2;
          v = foldl (\<lambda>a c. a * base + digit_value c) 0 ds
      in if ds = [] then (0, nptr)
         else (if v \<ge> 2 ^ 64 then 2 ^ 64 - 1
               else if neg then (2 ^ 64 - v) mod 2 ^ 64
               else v,
               dropWhile (\<lambda>c. digit_value c < base) s2))"

subsection \<open>\<^verbatim>\<open>parseline\<close>\<close>

definition strncmp_eq :: "string \<Rightarrow> string \<Rightarrow> nat \<Rightarrow> bool" where
  \<comment> \<open>\<^verbatim>\<open>strncmp(a, b, n) == 0\<close>\<close>
  "strncmp_eq a b n = (take n a = take n b)"

definition param_ref :: "char \<Rightarrow> uint32_t" where
  \<comment> \<open>\<^verbatim>\<open>SCRIPT_MAGIC + (c - '0')\<close>, the character promoted to \<^verbatim>\<open>int\<close> as a signed char\<close>
  "param_ref c =
     SCRIPT_MAGIC + word_of_int ((if (of_char c :: nat) < 128 then int (of_char c :: nat)
                                   else int (of_char c :: nat) - 256) - 48)"

definition parse_dest :: "string \<Rightarrow> REG_DEF list \<Rightarrow> error + (string \<times> uint32_t \<times> uint8_t)" where
  \<comment> \<open>the section "memory address or register": the rest of the line, the address, the size\<close>
  "parse_dest line registers =
     (if isdigit (nth0 line 0) then
        Inr (snd (strtoul line), word_of_nat (fst (strtoul line)), 4)
      else if nth0 line 0 = CHR ''$'' then
        (if tl line = [] then Inl OutOfBounds
         else Inr (drop 2 line, param_ref (nth0 line 1), 4))
      else
        let n = length (takeWhile (\<lambda>c. isalnum c \<or> c = CHR ''_'') line)
        in case dropWhile (\<lambda>r. \<not> strncmp_eq line (reg_name r) n) registers of
             [] \<Rightarrow> Inl AssertFail
           | r # _ \<Rightarrow> Inr (drop n line, reg_address r, reg_size r))"

definition parse_oper :: "string \<Rightarrow> error + (string \<times> char \<times> bool)" where
  \<comment> \<open>the section "operation": the rest of the line, the operator, the flag \<^verbatim>\<open>invert\<close>\<close>
  "parse_oper line0 =
     (let line = skipleading line0
      in if \<not> (nth0 line 0 = CHR ''='' \<or> nth0 line 0 = CHR ''|'' \<or> nth0 line 0 = CHR ''&''
                \<or> nth0 line 0 = CHR ''~'')
         then Inl AssertFail
         else
           let oper = (if nth0 line 0 = CHR ''~'' then CHR ''&'' else nth0 line 0);
               invert = (nth0 line 0 = CHR ''~'');
               line1 = tl line;
               line2 = skipleading (if nth0 line1 0 = CHR ''='' then tl line1 else line1)
           in if nth0 line2 0 = CHR ''~''
              then Inr (skipleading (tl line2), oper, \<not> invert)
              else Inr (line2, oper, invert))"

definition parse_value :: "string \<Rightarrow> char \<Rightarrow> bool \<Rightarrow> error + (string \<times> char \<times> uint32_t)" where
  \<comment> \<open>the section "parameter": the rest of the line, the operator, the value\<close>
  "parse_value line oper invert =
     (if nth0 line 0 = CHR ''$'' then
        (if tl line = [] then Inl OutOfBounds
         else if \<not> (\<not> invert \<or> oper = CHR ''&'') then Inl AssertFail
         else Inr (drop 2 line, if oper = CHR ''&'' \<and> invert then CHR ''~'' else oper,
                   param_ref (nth0 line 1)))
      else
        Inr (snd (strtoul line), oper,
             if invert then NOT (word_of_nat (fst (strtoul line)))
             else word_of_nat (fst (strtoul line))))"

definition parse_source :: "string \<Rightarrow> error + (string \<times> char \<times> uint32_t)" where
  \<comment> \<open>the sections "operation" and "parameter" together, on the text behind the
      destination: the rest of the line, the operator, the value\<close>
  "parse_source line =
     (case parse_oper line of
        Inl e \<Rightarrow> Inl e
      | Inr (line', oper, invert) \<Rightarrow> parse_value line' oper invert)"

definition parseline :: "string \<Rightarrow> REG_DEF list \<Rightarrow> error + (string \<times> SCRIPTLINE)" where
  \<comment> \<open>the returned pointer and the four values stored through the output parameters\<close>
  "parseline line0 registers =
     (let line1 = skipleading line0;
          line = (if strncmp_eq line1 ''set'' 3 \<and> le_space (nth0 line1 3)
                  then skipleading (drop 3 line1) else line1)
      in case parse_dest line registers of
           Inl e \<Rightarrow> Inl e
         | Inr (line2, address, sz) \<Rightarrow>
             (case parse_source line2 of
                Inl e \<Rightarrow> Inl e
              | Inr (line4, oper, v) \<Rightarrow>
                  let line5 = dropWhile (\<lambda>c. c \<noteq> CHR 0x0A \<and> le_space c) line4
                  in if \<not> (nth0 line5 0 = CHR 0x0A \<or> nth0 line5 0 = CHR 0x00)
                     then Inl AssertFail
                     else Inr (skipleading line5,
                               \<lparr>line_address = address, line_value = v,
                                line_size = sz, line_oper = oper\<rparr>)))"

lemma length_strtoul: "length (snd (strtoul s)) \<le> length s"
proof -
  have d: "length (dropWhile P (xs :: string)) \<le> length xs" for P xs
    by (rule length_dropWhile_le)
  have t: "length (tl (xs :: string)) \<le> length xs" for xs
    by simp
  let ?s = "dropWhile isspace s"
  let ?s1 = "if nth0 ?s 0 = CHR ''-'' \<or> nth0 ?s 0 = CHR ''+'' then tl ?s else ?s"
  have 1: "length ?s1 \<le> length s"
  proof -
    have "length (tl ?s) \<le> length ?s" by (rule t)
    also have "length ?s \<le> length s" by (rule d)
    finally have "length (tl ?s) \<le> length s" .
    with d [of isspace s] show ?thesis by presburger
  qed
  have 2: "length (dropWhile P (drop 2 ?s1)) \<le> length s" for P
    using d [of P "drop 2 ?s1"] 1 by simp
  have 3: "length (dropWhile P ?s1) \<le> length s" for P
    using d [of P ?s1] 1 by linarith
  show ?thesis
    unfolding strtoul_def Let_def using 2 3 by (simp split: if_splits)
qed

lemma length_skipleading: "length (skipleading s) \<le> length s"
  unfolding skipleading_def by (rule length_dropWhile_le)

lemma length_parse_dest:
  assumes "parse_dest line registers = Inr (rest, a, sz)"
  shows "length rest \<le> length line"
  using assms length_strtoul [of line]
  by (auto simp: parse_dest_def Let_def split: if_splits list.splits)

lemma length_parse_oper:
  assumes "parse_oper line = Inr (rest, oper, invert)"
  shows "length rest < length line"
proof -
  let ?l = "skipleading line"
  from assms have ne: "?l \<noteq> []"
    by (auto simp: parse_oper_def Let_def nth0_def split: if_splits)
  let ?l1 = "tl ?l"
  let ?l2 = "skipleading (if nth0 ?l1 0 = CHR ''='' then tl ?l1 else ?l1)"
  have a: "length ?l1 < length line"
    using ne length_skipleading [of line] by (cases ?l) auto
  have "length (skipleading (tl ?l1)) \<le> length (tl ?l1)"
    by (rule length_skipleading)
  also have "length (tl ?l1) \<le> length ?l1" by simp
  finally have "length (skipleading (tl ?l1)) \<le> length ?l1" .
  with length_skipleading [of ?l1] have b: "length ?l2 \<le> length ?l1"
    by presburger
  have c: "length (skipleading (tl ?l2)) \<le> length ?l2"
    using length_skipleading [of "tl ?l2"] by simp
  from assms have "rest = ?l2 \<or> rest = skipleading (tl ?l2)"
    by (auto simp: parse_oper_def Let_def split: if_splits)
  with a b c show ?thesis by auto
qed

lemma length_parse_value:
  assumes "parse_value line oper invert = Inr (rest, oper', v)"
  shows "length rest \<le> length line"
  using assms length_strtoul [of line]
  by (auto simp: parse_value_def split: if_splits)

lemma length_parseline:
  assumes "parseline line registers = Inr (rest, l)"
  shows "length rest < length line"
proof -
  let ?l1 = "skipleading line"
  let ?l = "if strncmp_eq ?l1 ''set'' 3 \<and> le_space (nth0 ?l1 3)
            then skipleading (drop 3 ?l1) else ?l1"
  have "length (skipleading (drop 3 ?l1)) \<le> length (drop 3 ?l1)"
    by (rule length_skipleading)
  also have "length (drop 3 ?l1) \<le> length ?l1" by simp
  finally have "length (skipleading (drop 3 ?l1)) \<le> length ?l1" .
  with length_skipleading [of line] have 0: "length ?l \<le> length line"
    by presburger
  from assms obtain line2 a sz where d: "parse_dest ?l registers = Inr (line2, a, sz)"
    by (auto simp: parseline_def Let_def split: sum.splits)
  from assms d obtain line3 oper invert where o: "parse_oper line2 = Inr (line3, oper, invert)"
    by (auto simp: parseline_def parse_source_def Let_def split: sum.splits)
  from assms d o obtain line4 oper' v where
    v: "parse_value line3 oper invert = Inr (line4, oper', v)"
    by (auto simp: parseline_def parse_source_def Let_def split: sum.splits)
  from assms d o v have r:
    "rest = skipleading (dropWhile (\<lambda>c. c \<noteq> CHR 0x0A \<and> le_space c) line4)"
    by (auto simp: parseline_def parse_source_def Let_def split: if_splits)
  have 4: "length rest \<le> length line4"
    unfolding r
    using length_skipleading [of "dropWhile (\<lambda>c. c \<noteq> CHR 0x0A \<and> le_space c) line4"]
      length_dropWhile_le [of "\<lambda>c. c \<noteq> CHR 0x0A \<and> le_space c" line4]
    by linarith
  from length_parse_dest [OF d] length_parse_oper [OF o] length_parse_value [OF v] 0 4
  show ?thesis by linarith
qed

section \<open>Loader\<close>

function compile_script :: "string \<Rightarrow> REG_DEF list \<Rightarrow> error + SCRIPTLINE list" where
  \<comment> \<open>the loop \<^verbatim>\<open>while (*head != '\0')\<close> over the text of a hard-coded script\<close>
  "compile_script head registers =
     (if head = [] then Inr []
      else case parseline head registers of
             Inl e \<Rightarrow> Inl e
           | Inr (head', l) \<Rightarrow>
               (case compile_script head' registers of
                  Inl e \<Rightarrow> Inl e
                | Inr ls \<Rightarrow> Inr (l # ls)))"
  by pat_completeness auto
termination
  by (relation "measure (\<lambda>(h, r). length h)") (auto simp: length_parseline)

declare compile_script.simps [simp del]

definition add_script :: "string \<Rightarrow> SCRIPTLINE list \<Rightarrow> SCRIPT list \<Rightarrow> SCRIPT list" where
  \<comment> \<open>\<^verbatim>\<open>script->next = script_root.next; script_root.next = script\<close>\<close>
  "add_script name lines list = \<lparr>script_name = name, script_lines = lines\<rparr> # list"

definition bmscript_clearcache :: "session \<Rightarrow> session" where
  "bmscript_clearcache st =
     st\<lparr>cache := \<lparr>cache_name = None, cache_lines = [], cache_index = 0\<rparr>\<rparr>"

definition bmscript_clear :: "session \<Rightarrow> session" where
  "bmscript_clear st = (bmscript_clearcache st)\<lparr>scripts := [], root_name := None\<rparr>"

fun load_default_registers :: "string \<Rightarrow> REG_DEF list \<Rightarrow> REG_DEF list \<Rightarrow> error + REG_DEF list"
where
  "load_default_registers mcu [] registers = Inr registers"
| "load_default_registers mcu (d # ds) registers =
     (case mcu_match mcu (reg_mcu_list d) of
        Inl e \<Rightarrow> Inl e
      | Inr m \<Rightarrow>
          load_default_registers mcu ds
            (if m then registers @ [\<lparr>reg_name = reg_name d, reg_address = reg_address d,
                                     reg_size = reg_size d, reg_mcu_list = []\<rparr>]
             else registers))"

subsection \<open>The two \<^verbatim>\<open>sscanf\<close> formats\<close>

definition scan_s :: "string \<Rightarrow> (string \<times> string) option" where
  \<comment> \<open>the directive \<^verbatim>\<open>%s\<close>: the field and the rest of the input\<close>
  "scan_s s =
     (let s1 = dropWhile isspace s
      in if s1 = [] then None
         else Some (takeWhile (\<lambda>c. \<not> isspace c) s1, dropWhile (\<lambda>c. \<not> isspace c) s1))"

definition scan_lit :: "char \<Rightarrow> string \<Rightarrow> string option" where
  \<comment> \<open>an ordinary character of the format\<close>
  "scan_lit c s = (case s of [] \<Rightarrow> None | x # r \<Rightarrow> if x = c then Some r else None)"

definition sscanf_define :: "string \<Rightarrow> string list" where
  \<comment> \<open>\<^verbatim>\<open>sscanf(line, "define %s [%[^]]] = %s", ...)\<close>: the fields converted, in order; their
      number is the return value (an input failure, \<^verbatim>\<open>EOF\<close>, converts none)\<close>
  "sscanf_define line =
     (if take 6 line \<noteq> ''define'' then []
      else case scan_s (drop 6 line) of
        None \<Rightarrow> []
      | Some (regname, s1) \<Rightarrow>
      (case scan_lit CHR ''['' (dropWhile isspace s1) of
        None \<Rightarrow> [regname]
      | Some s2 \<Rightarrow>
      if takeWhile (\<lambda>c. c \<noteq> CHR '']'') s2 = [] then [regname]
      else
      let mcu_list = takeWhile (\<lambda>c. c \<noteq> CHR '']'') s2
      in (case scan_lit CHR '']'' (dropWhile (\<lambda>c. c \<noteq> CHR '']'') s2) of
        None \<Rightarrow> [regname, mcu_list]
      | Some s4 \<Rightarrow>
      (case scan_lit CHR ''='' (dropWhile isspace s4) of
        None \<Rightarrow> [regname, mcu_list]
      | Some s5 \<Rightarrow>
      (case scan_s s5 of
        None \<Rightarrow> [regname, mcu_list]
      | Some (address, s6) \<Rightarrow> [regname, mcu_list, address])))))"

definition sscanf_define2 :: "string \<Rightarrow> string list" where
  \<comment> \<open>\<^verbatim>\<open>sscanf(line, "define %s [%[^]]]", ...)\<close>: the same format cut after its second
      conversion\<close>
  "sscanf_define2 line = take 2 (sscanf_define line)"

definition fields_fit :: "string list \<Rightarrow> bool" where
  \<comment> \<open>the fields fit the buffers \<^verbatim>\<open>regname[64]\<close>, \<^verbatim>\<open>mcu_list[256]\<close>, \<^verbatim>\<open>address[64]\<close>\<close>
  "fields_fit fs = (list_all2 (\<lambda>f n. length f < n) fs (take (length fs) [64, 256, 64 :: nat]))"

subsection \<open>Registers and scripts of the override file\<close>

fun set_register :: "string \<Rightarrow> uint32_t \<Rightarrow> uint8_t \<Rightarrow> REG_DEF list \<Rightarrow> REG_DEF list" where
  \<comment> \<open>change the first entry of that name, or add a new entry at the end\<close>
  "set_register regname addr sz [] =
     [\<lparr>reg_name = regname, reg_address = addr, reg_size = sz, reg_mcu_list = []\<rparr>]"
| "set_register regname addr sz (r # rs) =
     (if reg_name r = regname then r\<lparr>reg_address := addr, reg_size := sz\<rparr> # rs
      else r # set_register regname addr sz rs)"

definition define_address :: "string \<Rightarrow> uint32_t \<times> uint8_t" where
  \<comment> \<open>the address and the size that the third field of a register definition gives\<close>
  "define_address address =
     (if nth0 address 0 = CHR ''{'' \<and> CHR ''}'' \<in> set address then
        (word_of_nat (fst (strtoul (tl (dropWhile (\<lambda>c. c \<noteq> CHR ''}'') address)))),
         if strncmp_eq address ''{short}'' 7 then 2
         else if strncmp_eq address ''{char}'' 6 \<or> strncmp_eq address ''{byte}'' 6 then 1
         else 4)
      else (word_of_nat (fst (strtoul address)), 4))"

definition file_register :: "string \<Rightarrow> string \<Rightarrow> REG_DEF list \<Rightarrow> error + REG_DEF list" where
  \<comment> \<open>one line of the file in the loop "get the registers from the file"\<close>
  "file_register mcu line0 registers =
     (let line = takeWhile (\<lambda>c. c \<noteq> CHR ''#'') line0;
          fields = sscanf_define line
      in if \<not> fields_fit fields then Inl OutOfBounds
         else if length fields \<noteq> 3 then Inr registers
         else case mcu_match mcu (fields ! 1) of
                Inl e \<Rightarrow> Inl e
              | Inr m \<Rightarrow>
                  if m then Inr (set_register (fields ! 0) (fst (define_address (fields ! 2)))
                                   (snd (define_address (fields ! 2))) registers)
                  else Inr registers)"

fun load_file_registers :: "string \<Rightarrow> string list \<Rightarrow> REG_DEF list \<Rightarrow> error + REG_DEF list" where
  "load_file_registers mcu [] registers = Inr registers"
| "load_file_registers mcu (line # rest) registers =
     (case file_register mcu line registers of
        Inl e \<Rightarrow> Inl e
      | Inr registers' \<Rightarrow> load_file_registers mcu rest registers')"

definition match_mcu_or_arch :: "string \<Rightarrow> string \<Rightarrow> string \<Rightarrow> error + bool" where
  \<comment> \<open>\<^verbatim>\<open>mcu_match(mcu, list) || (arch_name[0] != '\0' && mcu_match(arch_name, list))\<close>\<close>
  "match_mcu_or_arch mcu arch_name list =
     (case mcu_match mcu list of
        Inl e \<Rightarrow> Inl e
      | Inr True \<Rightarrow> Inr True
      | Inr False \<Rightarrow> if arch_name \<noteq> [] then mcu_match arch_name list else Inr False)"

fun load_default_scripts ::
  "string \<Rightarrow> string \<Rightarrow> REG_DEF list \<Rightarrow> SCRIPT_DEF list \<Rightarrow> SCRIPT list \<Rightarrow> error + SCRIPT list"
where
  "load_default_scripts mcu arch_name registers [] list = Inr list"
| "load_default_scripts mcu arch_name registers (d # ds) list =
     (case match_mcu_or_arch mcu arch_name (def_mcu_list d) of
        Inl e \<Rightarrow> Inl e
      | Inr False \<Rightarrow> load_default_scripts mcu arch_name registers ds list
      | Inr True \<Rightarrow>
          (case compile_script (skipleading (def_script d)) registers of
             Inl e \<Rightarrow> Inl e
           | Inr lines \<Rightarrow>
               load_default_scripts mcu arch_name registers ds
                 (add_script (def_name d) lines list)))"

definition script_header :: "string \<Rightarrow> string \<Rightarrow> string \<Rightarrow> string list \<Rightarrow> error + bool" where
  \<comment> \<open>the test for the first line of a script definition, after \<^verbatim>\<open>sscanf\<close> has filled
      \<open>flds\<close>\<close>
  "script_header mcu arch_name line flds =
     (if length flds = 2 \<and> CHR ''='' \<notin> set line
      then match_mcu_or_arch mcu arch_name (flds ! 1) else Inr False)"

record file_scan =
  fs_inscript :: bool
  fs_scriptname :: string
  fs_lines :: "SCRIPTLINE list"
  fs_list :: "SCRIPT list"

definition file_script_line ::
  "string \<Rightarrow> string \<Rightarrow> REG_DEF list \<Rightarrow> string \<Rightarrow> file_scan \<Rightarrow> error + file_scan"
where
  \<comment> \<open>one line of the file in the loop "now read the scripts from the file"; the buffer
      \<^verbatim>\<open>scriptname\<close> is overwritten whenever \<^verbatim>\<open>sscanf\<close> converts its first field\<close>
  "file_script_line mcu arch_name registers line0 fs =
     (let line = takeWhile (\<lambda>c. c \<noteq> CHR ''#'') line0;
          fields = sscanf_define2 line;
          fs1 = (if fields \<noteq> [] then fs\<lparr>fs_scriptname := fields ! 0\<rparr> else fs)
      in if skipleading line = [] then Inr fs
         else if \<not> fields_fit fields then Inl OutOfBounds
         else
           case script_header mcu arch_name line fields of
             Inl e \<Rightarrow> Inl e
           | Inr h \<Rightarrow>
               if h then
                 (if fs_inscript fs1 then Inl AssertFail
                  else Inr (fs1\<lparr>fs_inscript := True, fs_lines := []\<rparr>))
               else if fs_inscript fs1 \<and> strncmp_eq line ''end'' 3 \<and> le_space (nth0 line 3) then
                 Inr (fs1\<lparr>fs_inscript := False,
                           fs_list := add_script (fs_scriptname fs1) (fs_lines fs1)
                                        (fs_list fs1)\<rparr>)
               else if fs_inscript fs1 then
                 (case parseline line registers of
                    Inl e \<Rightarrow> Inl e
                  | Inr (rest, l) \<Rightarrow> Inr (fs1\<lparr>fs_lines := fs_lines fs1 @ [l]\<rparr>))
               else Inr fs1)"

fun load_file_scripts ::
  "string \<Rightarrow> string \<Rightarrow> REG_DEF list \<Rightarrow> string list \<Rightarrow> file_scan \<Rightarrow> error + file_scan"
where
  "load_file_scripts mcu arch_name registers [] fs = Inr fs"
| "load_file_scripts mcu arch_name registers (line # rest) fs =
     (case file_script_line mcu arch_name registers line fs of
        Inl e \<Rightarrow> Inl e
      | Inr fs' \<Rightarrow> load_file_scripts mcu arch_name registers rest fs')"

text \<open>
  The override file is an input of the load: \<open>None\<close> when there is no path or the file
  cannot be opened, otherwise the lines that the successive calls of \<^verbatim>\<open>fgets\<close> return
  (each of at most 511 characters, with its newline when it has one). The file is read
  twice and is taken to be the same both times.
\<close>

definition load_registers :: "string \<Rightarrow> string list option \<Rightarrow> error + REG_DEF list" where
  \<comment> \<open>the list of registers: the hard-coded ones, then those of the file\<close>
  "load_registers mcu file =
     (case load_default_registers mcu register_defaults [] of
        Inl e \<Rightarrow> Inl e
      | Inr registers \<Rightarrow>
          (case file of
             None \<Rightarrow> Inr registers
           | Some flines \<Rightarrow> load_file_registers mcu flines registers))"

definition load_scripts ::
  "string \<Rightarrow> string \<Rightarrow> REG_DEF list \<Rightarrow> string list option \<Rightarrow> error + SCRIPT list"
where
  \<comment> \<open>the list of scripts, built from the empty list that \<^verbatim>\<open>bmscript_clear\<close> leaves: the
      hard-coded scripts, then those of the file\<close>
  "load_scripts mcu arch_name registers file =
     (case load_default_scripts mcu arch_name registers script_defaults [] of
        Inl e \<Rightarrow> Inl e
      | Inr list0 \<Rightarrow>
          (case file of
             None \<Rightarrow> Inr list0
           | Some flines \<Rightarrow>
               (case load_file_scripts mcu arch_name registers flines
                       \<lparr>fs_inscript = False, fs_scriptname = [], fs_lines = [],
                        fs_list = list0\<rparr> of
                  Inl e \<Rightarrow> Inl e
                | Inr fs \<Rightarrow> if fs_inscript fs then Inl AssertFail else Inr (fs_list fs))))"

definition make_arch_name :: "string option \<Rightarrow> error + string" where
  \<comment> \<open>the buffer \<^verbatim>\<open>arch_name\<close>: the architecture in square brackets, or the empty string\<close>
  "make_arch_name arch =
     (case arch of
        None \<Rightarrow> Inr []
      | Some a \<Rightarrow>
          if length a > 0 then
            (if length a < 48 then Inr (''['' @ a @ '']'') else Inl AssertFail)
          else Inr [])"

definition bmscript_load ::
  "string \<Rightarrow> string option \<Rightarrow> string list option \<Rightarrow> session \<Rightarrow> error + (session \<times> nat)"
where
  "bmscript_load mcu arch file st =
     (if root_name st = Some mcu then Inr (st, length (scripts st))
      else
        case load_registers mcu file of
          Inl e \<Rightarrow> Inl e
        | Inr registers \<Rightarrow>
            (case make_arch_name arch of
               Inl e \<Rightarrow> Inl e
             | Inr arch_name \<Rightarrow>
                 (case load_scripts mcu arch_name registers file of
                    Inl e \<Rightarrow> Inl e
                  | Inr list1 \<Rightarrow>
                      Inr ((bmscript_clear st)\<lparr>scripts := list1\<rparr>, length list1))))"

section \<open>Iterator and formatter\<close>

definition stricmp_eq :: "string \<Rightarrow> string \<Rightarrow> bool" where
  \<comment> \<open>\<^verbatim>\<open>stricmp(a, b) == 0\<close>\<close>
  "stricmp_eq a b = (map tolower a = map tolower b)"

definition bmscript_line :: "string option \<Rightarrow> session \<Rightarrow> error + (SCRIPTLINE option \<times> session)"
where
  \<comment> \<open>the name is \<open>None\<close> for \<^verbatim>\<open>NULL\<close>; the result is \<open>None\<close> where the source returns 0,
      otherwise the line stored through the output parameters\<close>
  "bmscript_line name0 st =
     (case (case name0 of None \<Rightarrow> cache_name (cache st) | Some n \<Rightarrow> Some n) of
        None \<Rightarrow> Inl AssertFail
      | Some name \<Rightarrow>
          (case (if cache_name (cache st) = None \<or> cache_name (cache st) \<noteq> Some name
                 then (case dropWhile (\<lambda>script. \<not> stricmp_eq name (script_name script))
                              (scripts st) of
                         [] \<Rightarrow> None
                       | script # _ \<Rightarrow>
                           Some \<lparr>cache_name = Some (script_name script),
                                 cache_lines = script_lines script, cache_index = 0\<rparr>)
                 else Some (cache st)) of
             None \<Rightarrow> Inr (None, st)
           | Some c \<Rightarrow>
               if \<not> cache_index c \<le> length (cache_lines c) then Inl AssertFail
               else if cache_index c = length (cache_lines c) then Inr (None, st\<lparr>cache := c\<rparr>)
               else Inr (Some (cache_lines c ! cache_index c),
                         st\<lparr>cache := c\<lparr>cache_index := cache_index c + 1\<rparr>\<rparr>)))"

definition hexdigit :: "nat \<Rightarrow> char" where
  "hexdigit d = ''0123456789abcdef'' ! d"

fun hex :: "nat \<Rightarrow> string" where
  \<comment> \<open>the conversion \<^verbatim>\<open>%x\<close>\<close>
  "hex n = (if n < 16 then [hexdigit n] else hex (n div 16) @ [hexdigit (n mod 16)])"

declare hex.simps [simp del]

definition operstr :: "char \<Rightarrow> string option" where
  "operstr oper =
     (if oper = CHR ''='' then Some ''=''
      else if oper = CHR ''|'' then Some ''|=''
      else if oper = CHR ''&'' then Some ''&=''
      else if oper = CHR ''~'' then Some ''&= ~''
      else None)"

definition replace_param :: "uint32_t \<Rightarrow> 64 word list option \<Rightarrow> error + uint32_t" where
  \<comment> \<open>\<^verbatim>\<open>if ((v & ~0xf) == SCRIPT_MAGIC) v = (uint32_t)params[v & 0xf]\<close>; a read past the end
      of the caller's array is the error \<open>OutOfBounds\<close>\<close>
  "replace_param v params =
     (if v AND NOT 0xf = SCRIPT_MAGIC then
        (case params of
           None \<Rightarrow> Inl AssertFail
         | Some ps \<Rightarrow>
             if unat (v AND 0xf) < length ps then Inr (ucast (ps ! unat (v AND 0xf)))
             else Inl OutOfBounds)
      else Inr v)"

definition bmscript_line_fmt ::
  "string option \<Rightarrow> 64 word list option \<Rightarrow> session \<Rightarrow> error + (string option \<times> session)"
where
  \<comment> \<open>the result is \<open>None\<close> where the source returns 0, otherwise the text written to
      \<^verbatim>\<open>line\<close>\<close>
  "bmscript_line_fmt name params st =
     (case bmscript_line name st of
        Inl e \<Rightarrow> Inl e
      | Inr (None, st') \<Rightarrow> Inr (None, st')
      | Inr (Some l, st') \<Rightarrow>
          (case operstr (line_oper l) of
             None \<Rightarrow> Inl AssertFail
           | Some ops \<Rightarrow>
               (case replace_param (line_address l) params of
                  Inl e \<Rightarrow> Inl e
                | Inr address \<Rightarrow>
                    if (line_address l) AND NOT 0xf = SCRIPT_MAGIC \<and> address = NOT 0
                    then Inr (None, st')
                    else
                      (case replace_param (line_value l) params of
                         Inl e \<Rightarrow> Inl e
                       | Inr v \<Rightarrow>
                           if line_size l = 1 then
                             Inr (Some (''set {char}0x'' @ hex (unat address) @ '' '' @ ops
                                        @ '' 0x'' @ hex (unat (v AND 0xff)) @ NL), st')
                           else if line_size l = 2 then
                             Inr (Some (''set {short}0x'' @ hex (unat address) @ '' '' @ ops
                                        @ '' 0x'' @ hex (unat (v AND 0xffff)) @ NL), st')
                           else if line_size l = 4 then
                             Inr (Some (''set {int}0x'' @ hex (unat address) @ '' '' @ ops
                                        @ '' 0x'' @ hex (unat v) @ NL), st')
                           else Inl AssertFail))))"

definition session_init :: session where
  \<comment> \<open>the static initialisers of \<^verbatim>\<open>script_root\<close> and \<^verbatim>\<open>cache\<close>\<close>
  "session_init = \<lparr>root_name = None, scripts = [],
                   cache = \<lparr>cache_name = None, cache_lines = [], cache_index = 0\<rparr>\<rparr>"

section \<open>Sequences of calls\<close>

text \<open>
  A caller runs a script by calling the iterator or the formatter again and again. The
  functions below make \<open>n\<close> successive calls and collect what each call returns; the
  first error ends the run.
\<close>

fun line_calls ::
  "nat \<Rightarrow> string option \<Rightarrow> session \<Rightarrow> error + (SCRIPTLINE option list \<times> session)"
where
  "line_calls 0 name st = Inr ([], st)"
| "line_calls (Suc n) name st =
     (case bmscript_line name st of
        Inl e \<Rightarrow> Inl e
      | Inr (r, st') \<Rightarrow>
          (case line_calls n name st' of
             Inl e \<Rightarrow> Inl e
           | Inr (rs, st'') \<Rightarrow> Inr (r # rs, st'')))"

fun format_calls ::
  "nat \<Rightarrow> string option \<Rightarrow> 64 word list option \<Rightarrow> session
   \<Rightarrow> error + (string option list \<times> session)"
where
  "format_calls 0 name params st = Inr ([], st)"
| "format_calls (Suc n) name params st =
     (case bmscript_line_fmt name params st of
        Inl e \<Rightarrow> Inl e
      | Inr (r, st') \<Rightarrow>
          (case format_calls n name params st' of
             Inl e \<Rightarrow> Inl e
           | Inr (rs, st'') \<Rightarrow> Inr (r # rs, st'')))"

definition load_and_format ::
  "string \<Rightarrow> string option \<Rightarrow> string list option \<Rightarrow> nat \<Rightarrow> string option
   \<Rightarrow> 64 word list option \<Rightarrow> error + string option list"
where
  \<comment> \<open>a load in the initial session, followed by \<open>n\<close> calls of the formatter\<close>
  "load_and_format mcu arch file n name params =
     (case bmscript_load mcu arch file session_init of
        Inl e \<Rightarrow> Inl e
      | Inr (st, count) \<Rightarrow>
          (case format_calls n name params st of
             Inl e \<Rightarrow> Inl e
           | Inr (rs, st') \<Rightarrow> Inr rs))"

definition load_and_lines ::
  "string \<Rightarrow> string option \<Rightarrow> string list option \<Rightarrow> nat \<Rightarrow> string option
   \<Rightarrow> error + SCRIPTLINE option list"
where
  \<comment> \<open>a load in the initial session, followed by \<open>n\<close> calls of the iterator\<close>
  "load_and_lines mcu arch file n name =
     (case bmscript_load mcu arch file session_init of
        Inl e \<Rightarrow> Inl e
      | Inr (st, count) \<Rightarrow>
          (case line_calls n name st of
             Inl e \<Rightarrow> Inl e
           | Inr (rs, st') \<Rightarrow> Inr rs))"

section \<open>Reference sessions and invariants\<close>

text \<open>
  The sessions below are the ones the loader builds for three targets; they serve as
  concrete inputs. \<open>cache_ok\<close> is the invariant of the cursor: the cached script is
  the first one of the list that the cached name finds.
\<close>

definition mk_line :: "uint32_t \<Rightarrow> char \<Rightarrow> uint32_t \<Rightarrow> SCRIPTLINE" where
  \<comment> \<open>a line on a 32-bit register\<close>
  "mk_line a oper v = \<lparr>line_address = a, line_value = v, line_size = 4, line_oper = oper\<rparr>"

definition mk_script :: "string \<Rightarrow> SCRIPTLINE list \<Rightarrow> SCRIPT" where
  "mk_script name ls = \<lparr>script_name = name, script_lines = ls\<rparr>"

definition mk_session :: "SCRIPT list \<Rightarrow> string option \<Rightarrow> SCRIPTLINE list \<Rightarrow> nat \<Rightarrow> session" where
  \<comment> \<open>a session with the given scripts and cursor, and no name in the root\<close>
  "mk_session list name ls i =
     \<lparr>root_name = None, scripts = list,
      cache = \<lparr>cache_name = name, cache_lines = ls, cache_index = i\<rparr>\<rparr>"

definition swo_generic_lines :: "SCRIPTLINE list" where
  "swo_generic_lines =
     [mk_line 0xE000EDFC CHR ''='' 0x1000000,
      mk_line 0xE0040004 CHR ''='' 1,
      mk_line 0xE00400F0 CHR ''='' (SCRIPT_MAGIC + 0),
      mk_line 0xE0040010 CHR ''='' (SCRIPT_MAGIC + 1),
      mk_line 0xE0040304 CHR ''='' 0,
      mk_line 0xE0000FB0 CHR ''='' 0xC5ACCE55,
      mk_line 0xE0000E80 CHR ''='' 0x11,
      mk_line 0xE0000E40 CHR ''='' 0]"

definition stm32f4_device_lines :: "SCRIPTLINE list" where
  "stm32f4_device_lines =
     [mk_line 0x40023830 CHR ''|'' 0x02,
      mk_line 0x40020400 CHR ''&'' 0xFFFFFF3F,
      mk_line 0x40020400 CHR ''|'' 0x0080,
      mk_line 0x40020420 CHR ''&'' 0xFFFF0FFF,
      mk_line 0x40020408 CHR ''|'' 0x00c0,
      mk_line 0x4002040C CHR ''&'' 0xFFFFFF3F,
      mk_line 0xE0042004 CHR ''|'' 0x20]"

definition stm32f407_scripts :: "SCRIPT list" where
  "stm32f407_scripts =
     [mk_script ''swo_channels'' [mk_line 0xE0000E00 CHR ''='' (SCRIPT_MAGIC + 0)],
      mk_script ''swo_generic'' swo_generic_lines,
      mk_script ''swo_device'' stm32f4_device_lines]"

definition lpc1343_override :: "string list" where
  "lpc1343_override =
     [''define memremap [LPC13xx] '' @ NL, '' SYSCON_SYSMEMREMAP = 5 '' @ NL, ''end'' @ NL]"

definition lpc1343_scripts :: "SCRIPT list" where
  "lpc1343_scripts =
     [mk_script ''memremap'' [mk_line 0x40048000 CHR ''='' 5],
      mk_script ''swo_channels'' [mk_line 0xE0000E00 CHR ''='' (SCRIPT_MAGIC + 0)],
      mk_script ''swo_generic'' swo_generic_lines,
      mk_script ''swo_device''
        [mk_line 0x400480AC CHR ''='' 1, mk_line 0x40044024 CHR ''='' 0x93],
      mk_script ''memremap'' [mk_line 0x40048000 CHR ''='' 2]]"

definition stm32f03_scripts :: "SCRIPT list" where
  "stm32f03_scripts =
     [mk_script ''swo_channels'' [mk_line 0xE0000E00 CHR ''='' (SCRIPT_MAGIC + 0)],
      mk_script ''swo_generic'' swo_generic_lines,
      mk_script ''swo_device'' [mk_line 0xE0042004 CHR ''|'' 0x20]]"

definition stm32f03_m0_scripts :: "SCRIPT list" where
  "stm32f03_m0_scripts =
     [mk_script ''swo_channels'' [mk_line (SCRIPT_MAGIC + 1) CHR ''='' (SCRIPT_MAGIC + 0)],
      mk_script ''swo_channels'' [mk_line 0xE0000E00 CHR ''='' (SCRIPT_MAGIC + 0)],
      mk_script ''swo_generic'' [mk_line (SCRIPT_MAGIC + 3) CHR ''='' (SCRIPT_MAGIC + 2)],
      mk_script ''swo_generic'' swo_generic_lines,
      mk_script ''swo_device'' [mk_line 0xE0042004 CHR ''|'' 0x20]]"

definition session_registers :: "string \<Rightarrow> string list option \<Rightarrow> REG_DEF list" where
  \<comment> \<open>the registers that a load for the MCU passes to the parser\<close>
  "session_registers mcu file =
     (case load_registers mcu file of Inl e \<Rightarrow> [] | Inr registers \<Rightarrow> registers)"

definition cache_ok :: "session \<Rightarrow> bool" where
  "cache_ok st =
     (case cache_name (cache st) of
        None \<Rightarrow> True
      | Some nm \<Rightarrow>
          (case dropWhile (\<lambda>script. \<not> stricmp_eq nm (script_name script)) (scripts st) of
             [] \<Rightarrow> False
           | script # _ \<Rightarrow> script_name script = nm
                           \<and> script_lines script = cache_lines (cache st))
          \<and> cache_index (cache st) \<le> length (cache_lines (cache st)))"

text \<open>
  The operators of the specification: the operator characters \<^verbatim>\<open>=\<close>, \<^verbatim>\<open>|\<close>, \<^verbatim>\<open>&\<close> and
  \<^verbatim>\<open>~\<close> of a compiled line stand for \<open>Store\<close>, \<open>Or\<close>, \<open>And\<close> and \<open>AndNot\<close>.
\<close>

datatype operator = Store | Or | And | AndNot

definition operator_of :: "char \<Rightarrow> operator option" where
  "operator_of oper =
     (if oper = CHR ''='' then Some Store
      else if oper = CHR ''|'' then Some Or
      else if oper = CHR ''&'' then Some And
      else if oper = CHR ''~'' then Some AndNot
      else None)"

text \<open>
  The lines that the formatter accepts: the width is 1, 2 or 4 and the operator is one
  of the four; for a line, a script list and a register list.
\<close>

definition width_ok :: "uint8_t \<Rightarrow> bool" where
  "width_ok w = (w = 1 \<or> w = 2 \<or> w = 4)"

definition line_ok :: "SCRIPTLINE \<Rightarrow> bool" where
  "line_ok l = (width_ok (line_size l) \<and> operator_of (line_oper l) \<noteq> None)"

definition lines_ok :: "SCRIPTLINE list \<Rightarrow> bool" where
  "lines_ok ls = list_all line_ok ls"

definition scripts_ok :: "SCRIPT list \<Rightarrow> bool" where
  "scripts_ok list = list_all (\<lambda>s. lines_ok (script_lines s)) list"

definition regs_ok :: "REG_DEF list \<Rightarrow> bool" where
  "regs_ok registers = list_all (\<lambda>r. width_ok (reg_size r)) registers"

definition file_scan_ok :: "file_scan \<Rightarrow> bool" where
  "file_scan_ok fs = (lines_ok (fs_lines fs) \<and> scripts_ok (fs_list fs))"

text \<open>The texts of the operators and of the types in the command.\<close>

fun operator_text :: "operator \<Rightarrow> string" where
  "operator_text Store = ''=''"
| "operator_text Or = ''|=''"
| "operator_text And = ''&=''"
| "operator_text AndNot = ''&= ~''"

definition type_name :: "uint8_t \<Rightarrow> string" where
  "type_name w = (if w = 1 then ''char'' else if w = 2 then ''short'' else ''int'')"

definition newlines :: "string \<Rightarrow> nat" where
  "newlines text = length (filter (\<lambda>c. c = CHR 0x0A) text)"

text \<open>
  The command as the specification words it: \<^verbatim>\<open>set {type}0xaddr op 0xvalue\<close> and a
  newline, for a width, an address, an operator and a value; the numbers are printed as
  \<^verbatim>\<open>%x\<close> prints them and the value is masked to the width.
\<close>

definition command_text :: "uint8_t \<Rightarrow> uint32_t \<Rightarrow> operator \<Rightarrow> uint32_t \<Rightarrow> string" where
  "command_text w a op v =
     ''set {'' @ type_name w @ ''}0x'' @ hex (unat a) @ '' '' @ operator_text op
     @ '' 0x'' @ hex (unat (v AND mask (8 * unat w))) @ NL"

text \<open>
  The invariant of a session: every line of every script has a width and an operator
  that the formatter accepts, and the cursor is on a script of the list.
\<close>

definition session_ok :: "session \<Rightarrow> bool" where
  "session_ok st = (scripts_ok (scripts st) \<and> cache_ok st)"

text \<open>
  An override file with a 16-bit and an 8-bit register and a script on them, and the
  scripts that a load for the STM32F407 builds with it.
\<close>

definition probe_override :: "string list" where
  "probe_override =
     [''define PORT_H [*] = {short}0x40001000'' @ NL,
      ''define PORT_B [*] = {char}0x40001002'' @ NL,
      ''define probe [*]'' @ NL,
      ''PORT_H |= 0x12345'' @ NL,
      ''PORT_B ~= 0x10f'' @ NL,
      ''end'' @ NL]"

definition probe_lines :: "SCRIPTLINE list" where
  "probe_lines =
     [\<lparr>line_address = 0x40001000, line_value = 0x12345, line_size = 2,
       line_oper = CHR ''|''\<rparr>,
      \<lparr>line_address = 0x40001002, line_value = 0xFFFFFEF0, line_size = 1,
       line_oper = CHR ''&''\<rparr>]"

definition probe_scripts :: "SCRIPT list" where
  "probe_scripts = mk_script ''probe'' probe_lines # stm32f407_scripts"

subsection \<open>The matcher as the specification words it\<close>

text \<open>
  The definitions below follow the words of the specification: the list is split at the
  commas, the tokens are trimmed, and a token is tried in the exact pass or in the prefix
  pass. \<open>matches_spec\<close> is the matcher of the specification; \<open>matches_short\<close> adds the
  bound of 50 characters that the buffers of the source put on a token. The last
  definitions describe where a \<^verbatim>\<open>*\<close> may stand in a list, and the tokens that the loops
  of the source visit.
\<close>

fun split_commas :: "string \<Rightarrow> string list" where
  "split_commas [] = [[]]"
| "split_commas (c # s) =
     (if c = CHR '','' then [] # split_commas s
      else (case split_commas s of [] \<Rightarrow> [[c]] | t # ts \<Rightarrow> (c # t) # ts))"

definition trim :: "string \<Rightarrow> string" where
  "trim t = skiptrailing (skipleading t)"

definition tokens :: "string \<Rightarrow> string list" where
  \<comment> \<open>the list split at the commas, each token without the white space around it\<close>
  "tokens list = map trim (split_commas list)"

definition char_match :: "char \<Rightarrow> char \<Rightarrow> bool" where
  \<comment> \<open>a character of a token against a character of the family name\<close>
  "char_match t c = (t = CHR ''x'' \<or> toupper t = toupper c)"

definition has_arch_suffix :: "string \<Rightarrow> bool" where
  "has_arch_suffix family =
     (case strrchr family CHR '' '' of
        None \<Rightarrow> False
      | Some (front, separator) \<Rightarrow> nth0 separator 1 = CHR ''M'' \<and> isdigit (nth0 separator 2))"

definition strip_arch_suffix :: "string \<Rightarrow> string" where
  "strip_arch_suffix family =
     (case strrchr family CHR '' '' of
        None \<Rightarrow> family
      | Some (front, separator) \<Rightarrow>
          if nth0 separator 1 = CHR ''M'' \<and> isdigit (nth0 separator 2)
          then skiptrailing front else family)"

definition exact_token :: "string \<Rightarrow> string \<Rightarrow> bool" where
  \<comment> \<open>pass 1: no \<^verbatim>\<open>*\<close>, the length of the family name, and matching characters\<close>
  "exact_token family token =
     (CHR ''*'' \<notin> set token \<and> list_all2 char_match token family)"

definition prefix_token :: "string \<Rightarrow> string \<Rightarrow> bool" where
  \<comment> \<open>pass 2: the \<^verbatim>\<open>*\<close> at the final position; the token \<^verbatim>\<open>*\<close>, or a prefix that is
      shorter than the family name and matches its head\<close>
  "prefix_token family token =
     (token \<noteq> [] \<and> last token = CHR ''*'' \<and> CHR ''*'' \<notin> set (butlast token)
      \<and> (token = ''*''
          \<or> (length (butlast token) < length family
              \<and> list_all2 char_match (butlast token) (take (length (butlast token)) family))))"

definition matches_spec :: "string \<Rightarrow> string \<Rightarrow> bool" where
  \<comment> \<open>the matcher as the specification words it\<close>
  "matches_spec mcu_family list =
     (list_ex (exact_token (strip_arch_suffix mcu_family)) (tokens list)
      \<or> list_ex (prefix_token (strip_arch_suffix mcu_family)) (tokens list))"

definition matches_short :: "string \<Rightarrow> string \<Rightarrow> bool" where
  \<comment> \<open>the same two passes, over the tokens of fewer than 50 characters in pass 1 and over
      the tokens with a prefix of fewer than 50 characters in pass 2\<close>
  "matches_short mcu_family list =
     (list_ex (\<lambda>t. length t < 50 \<and> exact_token (strip_arch_suffix mcu_family) t) (tokens list)
      \<or> list_ex (\<lambda>t. length (butlast t) < 50 \<and> prefix_token (strip_arch_suffix mcu_family) t)
           (tokens list))"

fun star_followed :: "string \<Rightarrow> bool" where
  \<comment> \<open>every \<^verbatim>\<open>*\<close> is followed by a comma, a space or the end of the list\<close>
  "star_followed [] = True"
| "star_followed (c # s) =
     ((c = CHR ''*'' \<longrightarrow> s = [] \<or> hd s = CHR '','' \<or> hd s = CHR '' '') \<and> star_followed s)"

definition star_last :: "string \<Rightarrow> bool" where
  \<comment> \<open>in every token a \<^verbatim>\<open>*\<close> can only be the last character\<close>
  "star_last list = list_all (\<lambda>t. CHR ''*'' \<notin> set (butlast t)) (tokens list)"

function items :: "string \<Rightarrow> string list" where
  \<comment> \<open>the tokens that a loop of \<^verbatim>\<open>mcu_match\<close> visits, from \<^verbatim>\<open>head\<close> on\<close>
  "items head =
     (if head = [] then []
      else skiptrailing (takeWhile (\<lambda>c. c \<noteq> CHR '','') head) # items (next_item head))"
  by pat_completeness auto
termination
  by (relation "measure length") (auto simp: length_next_item)

declare items.simps [simp del]

definition prefix_item :: "string \<Rightarrow> nat \<Rightarrow> string \<Rightarrow> bool" where
  \<comment> \<open>what the second loop of \<^verbatim>\<open>mcu_match\<close> tests on a token\<close>
  "prefix_item mcufamily namelen token =
     (CHR ''*'' \<in> set token
      \<and> (length (takeWhile (\<lambda>c. c \<noteq> CHR ''*'') token) = 0
          \<or> (namelen > length (takeWhile (\<lambda>c. c \<noteq> CHR ''*'') token)
              \<and> length (takeWhile (\<lambda>c. c \<noteq> CHR ''*'') token) < 50
              \<and> architecture_match (take (length (takeWhile (\<lambda>c. c \<noteq> CHR ''*'') token)) token)
                    (take (length (takeWhile (\<lambda>c. c \<noteq> CHR ''*'') token)) mcufamily))))"

section \<open>Facts about the loader and the iterator\<close>

lemma load_stm32f407:
  "bmscript_load ''STM32F407'' (Some ''M4'') None session_init =
     Inr (mk_session stm32f407_scripts None [] 0, 3)"
  by code_simp

lemma load_lpc1343:
  "bmscript_load ''LPC1343'' None (Some lpc1343_override) session_init =
     Inr (mk_session lpc1343_scripts None [] 0, 5)"
  by code_simp

lemma load_stm32f03:
  "bmscript_load ''STM32F03'' None None session_init =
     Inr (mk_session stm32f03_scripts None [] 0, 3)"
  by code_simp

lemma load_stm32f03_m0:
  "bmscript_load ''STM32F03'' (Some ''M0'') None (mk_session stm32f03_scripts None [] 0) =
     Inr (mk_session stm32f03_m0_scripts None [] 0, 5)"
  by code_simp

lemma load_probe:
  "bmscript_load ''STM32F407'' (Some ''M4'') (Some probe_override) session_init =
     Inr (mk_session probe_scripts None [] 0, 4)"
  by code_simp

lemma bmscript_line_continue:
  assumes "cache_name (cache st) = Some nm" and "name = None \<or> name = Some nm"
    and "cache_index (cache st) \<le> length (cache_lines (cache st))"
  shows "bmscript_line name st =
           (if cache_index (cache st) = length (cache_lines (cache st)) then Inr (None, st)
            else Inr (Some (cache_lines (cache st) ! cache_index (cache st)),
                      st\<lparr>cache := (cache st)\<lparr>cache_index := cache_index (cache st) + 1\<rparr>\<rparr>))"
  using assms by (auto simp: bmscript_line_def)

lemma bmscript_line_lookup:
  assumes "cache_name (cache st) \<noteq> Some nm"
  shows "bmscript_line (Some nm) st =
           (case dropWhile (\<lambda>script. \<not> stricmp_eq nm (script_name script)) (scripts st) of
              [] \<Rightarrow> Inr (None, st)
            | script # _ \<Rightarrow>
                if script_lines script = []
                then Inr (None, st\<lparr>cache := \<lparr>cache_name = Some (script_name script),
                                               cache_lines = [], cache_index = 0\<rparr>\<rparr>)
                else Inr (Some (script_lines script ! 0),
                          st\<lparr>cache := \<lparr>cache_name = Some (script_name script),
                                        cache_lines = script_lines script, cache_index = 1\<rparr>\<rparr>))"
proof (cases "dropWhile (\<lambda>script. \<not> stricmp_eq nm (script_name script)) (scripts st)")
  case Nil
  with assms show ?thesis by (simp add: bmscript_line_def del: dropWhile_eq_Nil_conv)
next
  case (Cons script rest)
  with assms show ?thesis by (simp add: bmscript_line_def)
qed

lemma bmscript_line_Some:
  assumes "bmscript_line name st = Inr (Some l, st')"
  shows "cache_name (cache st') \<noteq> None \<and> 0 < cache_index (cache st')
         \<and> cache_index (cache st') \<le> length (cache_lines (cache st'))
         \<and> l = cache_lines (cache st') ! (cache_index (cache st') - 1)
         \<and> scripts st' = scripts st \<and> root_name st' = root_name st"
  using assms
  by (auto simp: bmscript_line_def Suc_le_eq split: option.splits list.splits if_splits)

lemma bmscript_line_store:
  assumes "bmscript_line name st = Inr (r, st')"
  shows "scripts st' = scripts st \<and> root_name st' = root_name st"
  using assms
  by (auto simp: bmscript_line_def split: option.splits list.splits if_splits)

lemma bmscript_line_fmt_store:
  assumes "bmscript_line_fmt name params st = Inr (r, st')"
  shows "scripts st' = scripts st \<and> root_name st' = root_name st"
proof -
  from assms obtain r0 where "bmscript_line name st = Inr (r0, st')"
    by (auto simp: bmscript_line_fmt_def split: sum.splits option.splits if_splits)
  then show ?thesis by (rule bmscript_line_store)
qed

lemma line_calls_exhausted:
  assumes "cache_name (cache st) = Some nm" and "name = None \<or> name = Some nm"
    and "cache_index (cache st) = length (cache_lines (cache st))"
  shows "line_calls k name st = Inr (replicate k None, st)"
proof (induction k)
  case 0
  show ?case by simp
next
  case (Suc k)
  have "bmscript_line name st = Inr (None, st)"
    using bmscript_line_continue [OF assms(1) assms(2)] assms(3) by simp
  with Suc show ?case by simp
qed

lemma line_calls_run:
  assumes "cache_name (cache st) = Some nm" and "name = None \<or> name = Some nm"
    and "cache_index (cache st) + d = length (cache_lines (cache st))"
  shows "line_calls (d + k) name st =
           Inr (map Some (drop (cache_index (cache st)) (cache_lines (cache st)))
                  @ replicate k None,
                st\<lparr>cache := (cache st)\<lparr>cache_index := length (cache_lines (cache st))\<rparr>\<rparr>)"
  using assms
proof (induction d arbitrary: st)
  case 0
  then have "st\<lparr>cache := (cache st)\<lparr>cache_index := length (cache_lines (cache st))\<rparr>\<rparr> = st"
    by simp
  with 0 line_calls_exhausted [of st nm name k] show ?case by simp
next
  case (Suc d)
  let ?i = "cache_index (cache st)"
  let ?ls = "cache_lines (cache st)"
  let ?st = "st\<lparr>cache := (cache st)\<lparr>cache_index := ?i + 1\<rparr>\<rparr>"
  from Suc.prems have lt: "?i < length ?ls" by simp
  have step: "bmscript_line name st = Inr (Some (?ls ! ?i), ?st)"
    using bmscript_line_continue [OF Suc.prems(1) Suc.prems(2)] lt by simp
  have "line_calls (d + k) name ?st =
          Inr (map Some (drop (cache_index (cache ?st)) (cache_lines (cache ?st)))
                 @ replicate k None,
               ?st\<lparr>cache := (cache ?st)\<lparr>cache_index := length (cache_lines (cache ?st))\<rparr>\<rparr>)"
    using Suc.prems by (intro Suc.IH) auto
  then have rest: "line_calls (d + k) name ?st =
          Inr (map Some (drop (Suc ?i) ?ls) @ replicate k None,
               st\<lparr>cache := (cache st)\<lparr>cache_index := length ?ls\<rparr>\<rparr>)"
    by simp
  have "drop ?i ?ls = ?ls ! ?i # drop (Suc ?i) ?ls"
    using lt by (simp add: Cons_nth_drop_Suc)
  with step rest show ?case by simp
qed

lemma dropWhile_stricmp_append:
  assumes "\<forall>x\<in>set newer. \<not> stricmp_eq nm (script_name x)"
  shows "dropWhile (\<lambda>script. \<not> stricmp_eq nm (script_name script))
           (newer @ add_script nm ls older) = add_script nm ls older"
  using assms by (induction newer) (auto simp: add_script_def stricmp_eq_def)

lemma line_calls_fresh:
  assumes "cache_name (cache st) = None"
    and "dropWhile (\<lambda>script. \<not> stricmp_eq nm (script_name script)) (scripts st) = s # rest"
    and "script_name s = nm"
  shows "line_calls (Suc (length (script_lines s) + k)) (Some nm) st =
           Inr (map Some (script_lines s) @ replicate (Suc k) None,
                st\<lparr>cache := \<lparr>cache_name = Some nm, cache_lines = script_lines s,
                              cache_index = length (script_lines s)\<rparr>\<rparr>)"
proof (cases "script_lines s")
  case Nil
  let ?st = "st\<lparr>cache := \<lparr>cache_name = Some nm, cache_lines = [], cache_index = 0\<rparr>\<rparr>"
  have "bmscript_line (Some nm) st = Inr (None, ?st)"
    using assms Nil by (simp add: bmscript_line_lookup)
  moreover have "line_calls k (Some nm) ?st = Inr (replicate k None, ?st)"
    by (rule line_calls_exhausted [where nm = nm]) auto
  ultimately show ?thesis using Nil by simp
next
  case (Cons l ls)
  let ?st = "st\<lparr>cache := \<lparr>cache_name = Some nm, cache_lines = l # ls, cache_index = 1\<rparr>\<rparr>"
  have step: "bmscript_line (Some nm) st = Inr (Some l, ?st)"
    using assms Cons by (simp add: bmscript_line_lookup)
  have "line_calls (length ls + Suc k) (Some nm) ?st =
          Inr (map Some (drop (cache_index (cache ?st)) (cache_lines (cache ?st)))
                 @ replicate (Suc k) None,
               ?st\<lparr>cache := (cache ?st)\<lparr>cache_index := length (cache_lines (cache ?st))\<rparr>\<rparr>)"
    by (rule line_calls_run [where nm = nm]) auto
  then have "line_calls (Suc (length ls + k)) (Some nm) ?st =
          Inr (map Some ls @ replicate (Suc k) None,
               st\<lparr>cache := \<lparr>cache_name = Some nm, cache_lines = l # ls,
                             cache_index = Suc (length ls)\<rparr>\<rparr>)"
    by simp
  with step Cons show ?thesis by simp
qed


lemma stricmp_eq_trans:
  "stricmp_eq a b \<Longrightarrow> stricmp_eq b c = stricmp_eq a c"
  by (simp add: stricmp_eq_def)

lemma stricmp_eq_refl: "stricmp_eq a a"
  by (simp add: stricmp_eq_def)

lemma cache_ok_init: "cache_ok session_init"
  by (simp add: cache_ok_def session_init_def)

lemma cache_ok_clearcache: "cache_ok (bmscript_clearcache st)"
  by (simp add: cache_ok_def bmscript_clearcache_def)

lemma cache_ok_line:
  assumes "cache_ok st" and "bmscript_line name st = Inr (r, st')"
  shows "cache_ok st'"
proof -
  have found: "cache_ok (st\<lparr>cache := \<lparr>cache_name = Some (script_name script),
                  cache_lines = script_lines script, cache_index = i\<rparr>\<rparr>)"
    if d: "dropWhile (\<lambda>script. \<not> stricmp_eq nm (script_name script)) (scripts st)
             = script # rest"
      and i: "i \<le> length (script_lines script)" for nm script rest i
  proof -
    from d have m: "stricmp_eq nm (script_name script)"
      by (metis (mono_tags, lifting) hd_dropWhile list.distinct(1) list.sel(1))
    have "dropWhile (\<lambda>x. \<not> stricmp_eq (script_name script) (script_name x)) (scripts st)
            = script # rest"
      unfolding stricmp_eq_trans [OF m] by (rule d)
    with i show ?thesis by (simp add: cache_ok_def)
  qed
  show ?thesis
  proof (cases "\<exists>nm. cache_name (cache st) = Some nm \<and> (name = None \<or> name = Some nm)")
    case True
    then obtain nm where nm: "cache_name (cache st) = Some nm" "name = None \<or> name = Some nm"
      by blast
    from assms(1) nm have le: "cache_index (cache st) \<le> length (cache_lines (cache st))"
      by (simp add: cache_ok_def)
    from assms(2) bmscript_line_continue [OF nm le]
    have "st' = st \<or> (cache_index (cache st) < length (cache_lines (cache st))
            \<and> st' = st\<lparr>cache := (cache st)\<lparr>cache_index := cache_index (cache st) + 1\<rparr>\<rparr>)"
      using le by (auto split: if_splits)
    with assms(1) nm show ?thesis
      by (auto simp: cache_ok_def split: list.splits)
  next
    case False
    show ?thesis
    proof (cases name)
      case None
      with False have "cache_name (cache st) = None" by (cases "cache_name (cache st)") auto
      with None assms(2) show ?thesis by (simp add: bmscript_line_def)
    next
      case (Some n)
      with False have ne: "cache_name (cache st) \<noteq> Some n" by auto
      show ?thesis
      proof (cases "dropWhile (\<lambda>script. \<not> stricmp_eq n (script_name script)) (scripts st)")
        case Nil
        with assms(2) Some ne have "st' = st"
          by (simp add: bmscript_line_lookup del: dropWhile_eq_Nil_conv)
        with assms(1) show ?thesis by simp
      next
        case (Cons script rest)
        with assms(2) Some ne have
          "st' = st\<lparr>cache := \<lparr>cache_name = Some (script_name script),
                   cache_lines = script_lines script, cache_index = 0\<rparr>\<rparr>
           \<or> (script_lines script \<noteq> []
               \<and> st' = st\<lparr>cache := \<lparr>cache_name = Some (script_name script),
                   cache_lines = script_lines script, cache_index = 1\<rparr>\<rparr>)"
          by (auto simp: bmscript_line_lookup split: if_splits)
        then show ?thesis
          using found [OF Cons, of 0] found [OF Cons, of 1]
          by (auto simp: Suc_le_eq)
      qed
    qed
  qed
qed

lemma cache_ok_line_fmt:
  assumes "cache_ok st" and "bmscript_line_fmt name params st = Inr (r, st')"
  shows "cache_ok st'"
proof -
  from assms(2) obtain r0 where "bmscript_line name st = Inr (r0, st')"
    by (auto simp: bmscript_line_fmt_def split: sum.splits option.splits if_splits)
  with assms(1) show ?thesis by (rule cache_ok_line)
qed

lemma bmscript_load_rebuild:
  assumes "root_name st \<noteq> Some mcu"
    and "bmscript_load mcu arch file st = Inr (st', n)"
  shows "\<exists>registers arch_name list1.
           load_registers mcu file = Inr registers
           \<and> make_arch_name arch = Inr arch_name
           \<and> load_scripts mcu arch_name registers file = Inr list1
           \<and> st' = (bmscript_clear st)\<lparr>scripts := list1\<rparr> \<and> n = length list1"
proof -
  from assms obtain registers where r: "load_registers mcu file = Inr registers"
    by (cases "load_registers mcu file") (simp_all add: bmscript_load_def)
  from assms r obtain arch_name where a: "make_arch_name arch = Inr arch_name"
    by (cases "make_arch_name arch") (simp_all add: bmscript_load_def)
  from assms r a obtain list1 where
    l: "load_scripts mcu arch_name registers file = Inr list1"
    by (cases "load_scripts mcu arch_name registers file") (simp_all add: bmscript_load_def)
  from assms r a l have "st' = (bmscript_clear st)\<lparr>scripts := list1\<rparr>" "n = length list1"
    by (simp_all add: bmscript_load_def)
  with r a l show ?thesis by blast
qed

lemma cache_ok_load:
  assumes "cache_ok st" and "bmscript_load mcu arch file st = Inr (st', n)"
  shows "cache_ok st'"
proof (cases "root_name st = Some mcu")
  case True
  with assms show ?thesis by (simp add: bmscript_load_def)
next
  case False
  from bmscript_load_rebuild [OF False assms(2)] obtain list1 where
    "st' = (bmscript_clear st)\<lparr>scripts := list1\<rparr>"
    by blast
  then have "cache_name (cache st') = None"
    by (simp add: bmscript_clear_def bmscript_clearcache_def)
  then show ?thesis by (simp add: cache_ok_def)
qed

lemma bmscript_load_root_name:
  assumes "root_name st = None" and "bmscript_load mcu arch file st = Inr (st', n)"
  shows "root_name st' = None"
proof -
  from assms(1) have "root_name st \<noteq> Some mcu" by simp
  from bmscript_load_rebuild [OF this assms(2)] obtain list1 where
    "st' = (bmscript_clear st)\<lparr>scripts := list1\<rparr>"
    by blast
  then show ?thesis by (simp add: bmscript_clear_def bmscript_clearcache_def)
qed

lemma format_calls_store:
  assumes "format_calls n name params st = Inr (rs, st')"
  shows "scripts st' = scripts st \<and> root_name st' = root_name st"
  using assms
proof (induction n arbitrary: st rs)
  case 0
  then show ?case by simp
next
  case (Suc n)
  from Suc.prems obtain r st1 rs1 where
    a: "bmscript_line_fmt name params st = Inr (r, st1)"
    and b: "format_calls n name params st1 = Inr (rs1, st')"
    by (auto split: sum.splits)
  from bmscript_line_fmt_store [OF a] Suc.IH [OF b] show ?case by simp
qed

lemma clearcache_eq:
  assumes "scripts st' = scripts st \<and> root_name st' = root_name st"
  shows "bmscript_clearcache st' = bmscript_clearcache st"
  using assms by (cases st, cases st') (simp add: bmscript_clearcache_def)

subsection \<open>Widths of compiled lines\<close>

lemma parse_dest_width:
  assumes "regs_ok registers" and "parse_dest line registers = Inr (rest, a, sz)"
  shows "width_ok sz"
proof -
  have r: "width_ok (reg_size r)"
    if "dropWhile P registers = r # rs" for P r rs
  proof -
    have "r \<in> set (dropWhile P registers)" using that by simp
    then have "r \<in> set registers" by (rule set_dropWhileD)
    with assms(1) show ?thesis by (simp add: regs_ok_def list_all_iff)
  qed
  have 4: "width_ok 4" by (simp add: width_ok_def)
  show ?thesis
  proof (cases "isdigit (nth0 line 0) \<or> nth0 line 0 = CHR ''$''")
    case True
    with assms(2) have "sz = 4"
      by (auto simp: parse_dest_def split: if_splits)
    with 4 show ?thesis by simp
  next
    case False
    let ?n = "length (takeWhile (\<lambda>c. isalnum c \<or> c = CHR ''_'') line)"
    from False assms(2) obtain r rs where
      "dropWhile (\<lambda>r. \<not> strncmp_eq line (reg_name r) ?n) registers = r # rs"
      and "sz = reg_size r"
      by (auto simp: parse_dest_def Let_def split: list.splits)
    with r show ?thesis by simp
  qed
qed

lemma parse_value_oper:
  assumes "operator_of oper \<noteq> None" and "parse_value line oper invert = Inr (rest, oper', v)"
  shows "operator_of oper' \<noteq> None"
proof -
  from assms(2) have "oper' = oper \<or> oper' = CHR ''~''"
    by (auto simp: parse_value_def split: if_splits)
  with assms(1) show ?thesis by (auto simp: operator_of_def split: if_splits)
qed

lemma parse_oper_oper:
  assumes "parse_oper line = Inr (rest, oper, invert)"
  shows "operator_of oper \<noteq> None"
proof -
  let ?c = "nth0 (skipleading line) 0"
  from assms have c: "?c = CHR ''='' \<or> ?c = CHR ''|'' \<or> ?c = CHR ''&'' \<or> ?c = CHR ''~''"
    by (cases "?c = CHR ''='' \<or> ?c = CHR ''|'' \<or> ?c = CHR ''&'' \<or> ?c = CHR ''~''")
       (simp_all add: parse_oper_def Let_def)
  from assms c have "oper = (if ?c = CHR ''~'' then CHR ''&'' else ?c)"
    by (auto simp: parse_oper_def Let_def split: if_splits)
  with c show ?thesis by (auto simp: operator_of_def)
qed

lemma parse_source_oper:
  assumes "parse_source line = Inr (rest, oper, v)"
  shows "operator_of oper \<noteq> None"
proof -
  from assms obtain line' oper0 invert where
    o: "parse_oper line = Inr (line', oper0, invert)"
    by (cases "parse_oper line") (auto simp: parse_source_def)
  with assms have v: "parse_value line' oper0 invert = Inr (rest, oper, v)"
    by (simp add: parse_source_def)
  from parse_value_oper [OF parse_oper_oper [OF o] v] show ?thesis .
qed

lemma parseline_ok:
  assumes "regs_ok registers" and "parseline line registers = Inr (rest, l)"
  shows "line_ok l"
proof -
  let ?l1 = "skipleading line"
  let ?l = "if strncmp_eq ?l1 ''set'' 3 \<and> le_space (nth0 ?l1 3)
            then skipleading (drop 3 ?l1) else ?l1"
  from assms(2) obtain line2 a sz where d: "parse_dest ?l registers = Inr (line2, a, sz)"
    by (auto simp: parseline_def Let_def split: sum.splits)
  from assms(2) d obtain line4 oper v where s: "parse_source line2 = Inr (line4, oper, v)"
    by (auto simp: parseline_def Let_def split: sum.splits)
  from assms(2) d s have "line_size l = sz" and "line_oper l = oper"
    by (auto simp: parseline_def Let_def split: if_splits)
  with parse_dest_width [OF assms(1) d] parse_source_oper [OF s] show ?thesis
    by (simp add: line_ok_def)
qed

lemma compile_script_width:
  "regs_ok registers \<Longrightarrow> compile_script head registers = Inr ls \<Longrightarrow> lines_ok ls"
proof (induction head registers arbitrary: ls rule: compile_script.induct)
  case (1 head registers)
  show ?case
  proof (cases "head = []")
    case True
    then have "compile_script head registers = Inr []"
      by (subst compile_script.simps) simp
    with "1.prems"(2) show ?thesis by (simp add: lines_ok_def)
  next
    case False
    have unf: "compile_script head registers =
                 (case parseline head registers of
                    Inl e \<Rightarrow> Inl e
                  | Inr (head', l) \<Rightarrow>
                      (case compile_script head' registers of
                         Inl e \<Rightarrow> Inl e
                       | Inr ls \<Rightarrow> Inr (l # ls)))"
      using False by (subst compile_script.simps) simp
    note ok = "1.prems"(1)
    from "1.prems"(2) obtain head' l where p: "parseline head registers = Inr (head', l)"
      unfolding unf by (cases "parseline head registers") auto
    from "1.prems"(2) p obtain ls' where
      c: "compile_script head' registers = Inr ls'" and ls: "ls = l # ls'"
      unfolding unf by (cases "compile_script head' registers") auto
    from "1.IH" [OF False p refl ok c] have "lines_ok ls'" .
    moreover from parseline_ok [OF ok p] have "line_ok l" .
    ultimately show ?thesis using ls by (simp add: lines_ok_def)
  qed
qed

lemma register_defaults_ok: "regs_ok register_defaults"
  by (simp add: regs_ok_def register_defaults_def mk_reg_def width_ok_def)

lemma load_default_registers_ok:
  "regs_ok ds \<Longrightarrow> regs_ok registers \<Longrightarrow> load_default_registers mcu ds registers = Inr rs
   \<Longrightarrow> regs_ok rs"
proof (induction ds arbitrary: registers)
  case Nil
  then show ?case by simp
next
  case (Cons d ds)
  from Cons.prems(3) obtain m where
    r: "load_default_registers mcu ds
          (if m then registers @ [\<lparr>reg_name = reg_name d, reg_address = reg_address d,
                                   reg_size = reg_size d, reg_mcu_list = []\<rparr>]
           else registers) = Inr rs"
    by (auto split: sum.splits)
  from Cons.prems(1,2) have
    "regs_ok (if m then registers @ [\<lparr>reg_name = reg_name d, reg_address = reg_address d,
                                   reg_size = reg_size d, reg_mcu_list = []\<rparr>]
           else registers)"
    by (simp add: regs_ok_def)
  from Cons.IH [OF _ this r] Cons.prems(1) show ?case by (simp add: regs_ok_def)
qed

lemma set_register_ok:
  "width_ok sz \<Longrightarrow> regs_ok registers \<Longrightarrow> regs_ok (set_register regname addr sz registers)"
  by (induction registers) (auto simp: regs_ok_def)

lemma define_address_width: "width_ok (snd (define_address address))"
  by (simp add: define_address_def width_ok_def)

lemma file_register_ok:
  assumes "regs_ok registers" and "file_register mcu line registers = Inr rs"
  shows "regs_ok rs"
proof -
  let ?fields = "sscanf_define (takeWhile (\<lambda>c. c \<noteq> CHR ''#'') line)"
  let ?new = "set_register (?fields ! 0) (fst (define_address (?fields ! 2)))
                (snd (define_address (?fields ! 2))) registers"
  have "rs = registers \<or> rs = ?new"
  proof (cases "\<not> fields_fit ?fields \<or> length ?fields \<noteq> 3")
    case True
    with assms(2) show ?thesis
      by (simp add: file_register_def Let_def split: if_splits)
  next
    case False
    with assms(2) show ?thesis
      by (cases "mcu_match mcu (?fields ! 1)")
         (simp_all add: file_register_def Let_def split: if_splits)
  qed
  with assms(1) set_register_ok [OF define_address_width assms(1)] show ?thesis by auto
qed

lemma load_file_registers_ok:
  "regs_ok registers \<Longrightarrow> load_file_registers mcu flines registers = Inr rs \<Longrightarrow> regs_ok rs"
proof (induction flines arbitrary: registers)
  case Nil
  then show ?case by simp
next
  case (Cons line rest)
  from Cons.prems(2) obtain r1 where
    a: "file_register mcu line registers = Inr r1"
    and b: "load_file_registers mcu rest r1 = Inr rs"
    by (auto split: sum.splits)
  from Cons.IH [OF file_register_ok [OF Cons.prems(1) a] b] show ?case .
qed

lemma load_default_scripts_ok:
  "regs_ok registers \<Longrightarrow> scripts_ok list0
   \<Longrightarrow> load_default_scripts mcu arch_name registers ds list0 = Inr list1
   \<Longrightarrow> scripts_ok list1"
proof (induction ds arbitrary: list0)
  case Nil
  then show ?case by simp
next
  case (Cons d ds)
  from Cons.prems(3) obtain m where m: "match_mcu_or_arch mcu arch_name (def_mcu_list d) = Inr m"
    by (auto split: sum.splits)
  show ?case
  proof (cases m)
    case False
    with m Cons.prems(3) have "load_default_scripts mcu arch_name registers ds list0 = Inr list1"
      by simp
    from Cons.IH [OF Cons.prems(1,2) this] show ?thesis .
  next
    case True
    with m Cons.prems(3) obtain ls where
      c: "compile_script (skipleading (def_script d)) registers = Inr ls"
      and r: "load_default_scripts mcu arch_name registers ds (add_script (def_name d) ls list0)
                = Inr list1"
      by (auto split: sum.splits)
    from compile_script_width [OF Cons.prems(1) c] Cons.prems(2)
    have "scripts_ok (add_script (def_name d) ls list0)"
      by (simp add: scripts_ok_def add_script_def)
    from Cons.IH [OF Cons.prems(1) this r] show ?thesis .
  qed
qed

lemma file_script_line_ok:
  assumes "regs_ok registers" and "file_scan_ok fs"
    and "file_script_line mcu arch_name registers line0 fs = Inr fs'"
  shows "file_scan_ok fs'"
proof -
  let ?line = "takeWhile (\<lambda>c. c \<noteq> CHR ''#'') line0"
  let ?fields = "sscanf_define2 ?line"
  let ?fs1 = "if ?fields \<noteq> [] then fs\<lparr>fs_scriptname := ?fields ! 0\<rparr> else fs"
  have ok1: "file_scan_ok ?fs1" using assms(2) by (simp add: file_scan_ok_def)
  show ?thesis
  proof (cases "skipleading ?line = []")
    case True
    with assms(3) have "fs' = fs" by (simp add: file_script_line_def Let_def)
    with assms(2) show ?thesis by simp
  next
    case ne: False
    show ?thesis
    proof (cases "script_header mcu arch_name ?line ?fields")
      case (Inl e)
      with ne assms(3) show ?thesis
        by (simp add: file_script_line_def Let_def split: if_splits)
    next
      case (Inr h)
      show ?thesis
      proof (cases h)
        case True
        with ne Inr assms(3) have "fs' = ?fs1\<lparr>fs_inscript := True, fs_lines := []\<rparr>"
          by (simp add: file_script_line_def Let_def split: if_splits)
        with ok1 show ?thesis by (simp add: file_scan_ok_def lines_ok_def)
      next
        case False
        show ?thesis
        proof (cases "fs_inscript ?fs1")
          case nin: False
          with ne Inr False assms(3) have "fs' = ?fs1"
            by (simp add: file_script_line_def Let_def split: if_splits)
          with ok1 show ?thesis by simp
        next
          case True
          show ?thesis
          proof (cases "strncmp_eq ?line ''end'' 3 \<and> le_space (nth0 ?line 3)")
            case e: True
            with ne Inr False True assms(3) have
              "fs' = ?fs1\<lparr>fs_inscript := False,
                     fs_list := add_script (fs_scriptname ?fs1) (fs_lines ?fs1) (fs_list ?fs1)\<rparr>"
              by (simp add: file_script_line_def Let_def split: if_splits)
            with ok1 show ?thesis
              by (simp add: file_scan_ok_def scripts_ok_def add_script_def)
          next
            case e: False
            with ne Inr False True assms(3) obtain rest l where
              p: "parseline ?line registers = Inr (rest, l)"
              and f: "fs' = ?fs1\<lparr>fs_lines := fs_lines ?fs1 @ [l]\<rparr>"
              by (cases "parseline ?line registers")
                 (auto simp: file_script_line_def Let_def split: if_splits)
            from parseline_ok [OF assms(1) p] f ok1 show ?thesis
              by (simp add: file_scan_ok_def lines_ok_def)
          qed
        qed
      qed
    qed
  qed
qed

lemma load_file_scripts_ok:
  "regs_ok registers \<Longrightarrow> file_scan_ok fs
   \<Longrightarrow> load_file_scripts mcu arch_name registers flines fs = Inr fs'
   \<Longrightarrow> file_scan_ok fs'"
proof (induction flines arbitrary: fs)
  case Nil
  then show ?case by simp
next
  case (Cons line rest)
  from Cons.prems(3) obtain fs1 where
    a: "file_script_line mcu arch_name registers line fs = Inr fs1"
    and b: "load_file_scripts mcu arch_name registers rest fs1 = Inr fs'"
    by (auto split: sum.splits)
  from Cons.IH [OF Cons.prems(1) file_script_line_ok [OF Cons.prems(1,2) a] b] show ?case .
qed

lemma load_registers_ok:
  assumes "load_registers mcu file = Inr registers"
  shows "regs_ok registers"
proof -
  from assms obtain registers0 where
    r0: "load_default_registers mcu register_defaults [] = Inr registers0"
    by (cases "load_default_registers mcu register_defaults []")
       (simp_all add: load_registers_def)
  have ok0: "regs_ok registers0"
    by (rule load_default_registers_ok [OF register_defaults_ok _ r0]) (simp add: regs_ok_def)
  show ?thesis
  proof (cases "file")
    case None
    with assms r0 ok0 show ?thesis by (simp add: load_registers_def)
  next
    case (Some flines)
    with assms r0 have "load_file_registers mcu flines registers0 = Inr registers"
      by (simp add: load_registers_def)
    from load_file_registers_ok [OF ok0 this] show ?thesis .
  qed
qed

lemma load_scripts_ok:
  assumes "regs_ok registers" and "load_scripts mcu arch_name registers file = Inr list1"
  shows "scripts_ok list1"
proof -
  from assms(2) obtain list0 where
    l0: "load_default_scripts mcu arch_name registers script_defaults [] = Inr list0"
    by (cases "load_default_scripts mcu arch_name registers script_defaults []")
       (simp_all add: load_scripts_def)
  have ok0: "scripts_ok list0"
    by (rule load_default_scripts_ok [OF assms(1) _ l0]) (simp add: scripts_ok_def)
  show ?thesis
  proof (cases "file")
    case None
    with assms(2) l0 ok0 show ?thesis by (simp add: load_scripts_def)
  next
    case (Some flines)
    let ?fs0 = "\<lparr>fs_inscript = False, fs_scriptname = [], fs_lines = [], fs_list = list0\<rparr>"
    from Some assms(2) l0 obtain fs where
      f: "load_file_scripts mcu arch_name registers flines ?fs0 = Inr fs"
      by (cases "load_file_scripts mcu arch_name registers flines ?fs0")
         (simp_all add: load_scripts_def)
    have "file_scan_ok ?fs0" using ok0 by (simp add: file_scan_ok_def lines_ok_def)
    from load_file_scripts_ok [OF assms(1) this f] have okf: "scripts_ok (fs_list fs)"
      by (simp add: file_scan_ok_def)
    from Some assms(2) l0 f have "list1 = fs_list fs"
      by (simp add: load_scripts_def split: if_splits)
    with okf show ?thesis by simp
  qed
qed

lemma bmscript_load_widths:
  assumes "scripts_ok (scripts st)" and "bmscript_load mcu arch file st = Inr (st', n)"
  shows "scripts_ok (scripts st')"
proof (cases "root_name st = Some mcu")
  case True
  with assms show ?thesis by (simp add: bmscript_load_def)
next
  case False
  from bmscript_load_rebuild [OF False assms(2)] obtain registers arch_name list1 where
    r: "load_registers mcu file = Inr registers"
    and l: "load_scripts mcu arch_name registers file = Inr list1"
    and s: "st' = (bmscript_clear st)\<lparr>scripts := list1\<rparr>"
    by blast
  from load_scripts_ok [OF load_registers_ok [OF r] l] s show ?thesis by simp
qed

subsection \<open>The invariant of a session\<close>

lemma bmscript_line_ok:
  assumes "scripts_ok (scripts st)" and "cache_ok st"
    and "bmscript_line name st = Inr (Some l, st1)"
  shows "line_ok l"
proof -
  have in_list: "lines_ok (script_lines script)"
    if "dropWhile P (scripts st) = script # rest" for P script rest
  proof -
    have "script \<in> set (dropWhile P (scripts st))" using that by simp
    then have "script \<in> set (scripts st)" by (rule set_dropWhileD)
    with assms(1) show ?thesis by (simp add: scripts_ok_def list_all_iff)
  qed
  from bmscript_line_Some [OF assms(3)] have
    i: "0 < cache_index (cache st1)" "cache_index (cache st1) \<le> length (cache_lines (cache st1))"
    and l: "l = cache_lines (cache st1) ! (cache_index (cache st1) - 1)"
    by simp_all
  have hit: "lines_ok (cache_lines (cache st))" if "cache_name (cache st) = Some nm" for nm
  proof -
    from that assms(2) obtain script rest where
      d: "dropWhile (\<lambda>script. \<not> stricmp_eq nm (script_name script)) (scripts st)
            = script # rest"
      and e: "script_lines script = cache_lines (cache st)"
      by (auto simp: cache_ok_def split: list.splits)
    from in_list [OF d] e show ?thesis by simp
  qed
  have "lines_ok (cache_lines (cache st1))"
    using assms(3) hit in_list
    by (auto simp: bmscript_line_def split: option.splits list.splits if_splits)
  with i l show ?thesis by (simp add: lines_ok_def list_all_length)
qed

lemma session_ok_init: "session_ok session_init"
  using cache_ok_init by (simp add: session_ok_def scripts_ok_def session_init_def)

lemma session_ok_clearcache: "session_ok st \<Longrightarrow> session_ok (bmscript_clearcache st)"
  using cache_ok_clearcache [of st] by (simp add: session_ok_def bmscript_clearcache_def)

lemma session_ok_clear: "session_ok (bmscript_clear st)"
  by (simp add: session_ok_def scripts_ok_def cache_ok_def bmscript_clear_def
        bmscript_clearcache_def)

lemma session_ok_load:
  assumes "session_ok st" and "bmscript_load mcu arch file st = Inr (st', n)"
  shows "session_ok st'"
proof -
  from assms(1) have s: "scripts_ok (scripts st)" and c: "cache_ok st"
    by (simp_all add: session_ok_def)
  from bmscript_load_widths [OF s assms(2)] cache_ok_load [OF c assms(2)]
  show ?thesis by (simp add: session_ok_def)
qed

lemma session_ok_line:
  assumes "session_ok st" and "bmscript_line name st = Inr (r, st')"
  shows "session_ok st'"
proof -
  from assms(1) have s: "scripts_ok (scripts st)" and c: "cache_ok st"
    by (simp_all add: session_ok_def)
  from bmscript_line_store [OF assms(2)] s cache_ok_line [OF c assms(2)]
  show ?thesis by (simp add: session_ok_def)
qed

lemma session_ok_line_fmt:
  assumes "session_ok st" and "bmscript_line_fmt name params st = Inr (r, st')"
  shows "session_ok st'"
proof -
  from assms(1) have s: "scripts_ok (scripts st)" and c: "cache_ok st"
    by (simp_all add: session_ok_def)
  from bmscript_line_fmt_store [OF assms(2)] s cache_ok_line_fmt [OF c assms(2)]
  show ?thesis by (simp add: session_ok_def)
qed

subsection \<open>The text of the formatter\<close>

lemma hexdigit_no_newline: "d < 16 \<Longrightarrow> hexdigit d \<noteq> CHR 0x0A"
proof -
  assume "d < 16"
  then have "hexdigit d \<in> set ''0123456789abcdef''"
    unfolding hexdigit_def by (intro nth_mem) simp
  then show ?thesis by auto
qed

lemma newlines_hex: "newlines (hex n) = 0"
proof (induction n rule: hex.induct)
  case (1 n)
  show ?case
  proof (cases "n < 16")
    case True
    with hexdigit_no_newline [of n] show ?thesis
      by (subst hex.simps) (simp add: newlines_def)
  next
    case False
    have "n mod 16 < 16" by simp
    from hexdigit_no_newline [OF this] "1.IH" [OF False] False show ?thesis
      by (subst hex.simps) (simp add: newlines_def)
  qed
qed

lemma operstr_operator:
  "operstr oper = Some ops \<Longrightarrow> \<exists>op. operator_of oper = Some op \<and> ops = operator_text op"
  by (auto simp: operstr_def operator_of_def split: if_splits)

lemma newlines_operator_text: "newlines (operator_text op) = 0"
  by (cases op) (simp_all add: newlines_def)

lemma newlines_append: "newlines (a @ b) = newlines a + newlines b"
  by (simp add: newlines_def)

lemma newlines_type_name: "newlines (type_name w) = 0"
  by (simp add: type_name_def newlines_def)

lemma newlines_NL: "newlines NL = 1"
  by (simp add: NL_def newlines_def)

lemma mask_width:
  fixes v :: uint32_t
  shows "v AND mask (8 * unat (1 :: uint8_t)) = v AND 0xff"
    and "v AND mask (8 * unat (2 :: uint8_t)) = v AND 0xffff"
    and "v AND mask (8 * unat (4 :: uint8_t)) = v"
proof -
  show "v AND mask (8 * unat (1 :: uint8_t)) = v AND 0xff" by (simp add: mask_eq_exp_minus_1)
  show "v AND mask (8 * unat (2 :: uint8_t)) = v AND 0xffff" by (simp add: mask_eq_exp_minus_1)
  have "v AND mask 32 = v"
    by (rule bit_eqI) (auto simp: bit_and_iff bit_mask_iff dest: bit_imp_le_length)
  then show "v AND mask (8 * unat (4 :: uint8_t)) = v" by simp
qed

lemma bmscript_line_fmt_emit:
  assumes l: "bmscript_line name st = Inr (Some l, st')"
    and w: "width_ok (line_size l)"
    and o: "operator_of (line_oper l) = Some op"
    and a: "replace_param (line_address l) params = Inr a"
    and p: "\<not> (line_address l AND NOT 0xf = SCRIPT_MAGIC \<and> a = NOT 0)"
    and v: "replace_param (line_value l) params = Inr v"
  shows "bmscript_line_fmt name params st
           = Inr (Some (command_text (line_size l) a op v), st')"
proof -
  from o have os: "operstr (line_oper l) = Some (operator_text op)"
    by (auto simp: operator_of_def operstr_def split: if_splits)
  from w consider "line_size l = 1" | "line_size l = 2" | "line_size l = 4"
    by (auto simp: width_ok_def)
  then show ?thesis
  proof cases
    case 1
    with l os a p v mask_width(1) [of v] show ?thesis
      by (simp add: bmscript_line_fmt_def command_text_def type_name_def)
  next
    case 2
    with l os a p v mask_width(2) [of v] show ?thesis
      by (simp add: bmscript_line_fmt_def command_text_def type_name_def)
  next
    case 3
    with l os a p v mask_width(3) [of v] show ?thesis
      by (simp add: bmscript_line_fmt_def command_text_def type_name_def)
  qed
qed

lemma newlines_command_text: "newlines (command_text w a op v) = 1"
proof -
  have "newlines (command_text w a op v) =
      newlines ''set {'' + newlines (type_name w) + newlines ''}0x''
      + newlines (hex (unat a)) + newlines '' '' + newlines (operator_text op)
      + newlines '' 0x'' + newlines (hex (unat (v AND mask (8 * unat w))))
      + newlines NL"
    by (simp only: command_text_def newlines_append add.assoc)
  also have "\<dots> = 1"
    by (simp only: newlines_hex newlines_operator_text newlines_type_name newlines_NL)
       (simp add: newlines_def)
  finally show ?thesis .
qed

lemma bmscript_line_fmt_command:
  assumes "bmscript_line_fmt name params st = Inr (Some text, st1)"
  shows "\<exists>l a v op.
           bmscript_line name st = Inr (Some l, st1)
           \<and> replace_param (line_address l) params = Inr a
           \<and> \<not> (line_address l AND NOT 0xf = SCRIPT_MAGIC \<and> a = NOT 0)
           \<and> replace_param (line_value l) params = Inr v
           \<and> width_ok (line_size l)
           \<and> operator_of (line_oper l) = Some op
           \<and> text = command_text (line_size l) a op v"
proof -
  from assms obtain l where l: "bmscript_line name st = Inr (Some l, st1)"
    by (cases "bmscript_line name st")
       (auto simp: bmscript_line_fmt_def split: option.splits sum.splits if_splits)
  from assms l obtain ops where o: "operstr (line_oper l) = Some ops"
    by (cases "operstr (line_oper l)") (simp_all add: bmscript_line_fmt_def)
  from operstr_operator [OF o] obtain op where
    op: "operator_of (line_oper l) = Some op" "ops = operator_text op" by blast
  from assms l o obtain a where a: "replace_param (line_address l) params = Inr a"
    by (cases "replace_param (line_address l) params") (simp_all add: bmscript_line_fmt_def)
  from assms l o a have p: "\<not> (line_address l AND NOT 0xf = SCRIPT_MAGIC \<and> a = NOT 0)"
    by (auto simp: bmscript_line_fmt_def)
  from assms l o a p obtain v where v: "replace_param (line_value l) params = Inr v"
    by (cases "replace_param (line_value l) params")
       (simp_all add: bmscript_line_fmt_def split: if_splits)
  from assms l o a p v have w: "width_ok (line_size l)"
    by (auto simp: bmscript_line_fmt_def width_ok_def split: if_splits)
  from bmscript_line_fmt_emit [OF l w op(1) a p v] assms
  have t: "text = command_text (line_size l) a op v" by simp
  show ?thesis using l a p v w op(1) t by (intro exI conjI)
qed



subsection \<open>Loading twice\<close>

lemma bmscript_load_again:
  assumes "root_name st = None" and "bmscript_load mcu arch file st = Inr (st', n)"
  shows "bmscript_load mcu arch file st' = Inr (st', n)"
proof -
  from assms(1) have ne: "root_name st \<noteq> Some mcu" by simp
  from bmscript_load_rebuild [OF ne assms(2)] obtain registers arch_name list1 where
    r: "load_registers mcu file = Inr registers"
    and a: "make_arch_name arch = Inr arch_name"
    and l: "load_scripts mcu arch_name registers file = Inr list1"
    and s: "st' = (bmscript_clear st)\<lparr>scripts := list1\<rparr>" and n: "n = length list1"
    by blast
  from s have c: "(bmscript_clear st')\<lparr>scripts := list1\<rparr> = st'"
    by (cases st) (simp add: bmscript_clear_def bmscript_clearcache_def)
  from s have "root_name st' \<noteq> Some mcu"
    by (simp add: bmscript_clear_def bmscript_clearcache_def)
  with r a l c n show ?thesis by (simp add: bmscript_load_def)
qed

subsection \<open>The operator and the inversion flag\<close>

lemma skipleading_ws:
  assumes "list_all le_space ws" and "\<not> le_space (nth0 src 0)"
  shows "skipleading (ws @ src) = src"
proof -
  from assms(2) obtain c rest where s: "src = c # rest" and c: "\<not> le_space c"
    by (cases src) (auto simp: nth0_def le_space_def)
  from assms(1) have "dropWhile le_space (ws @ src) = dropWhile le_space src"
    by (intro dropWhile_append2) (simp add: list_all_iff)
  with s c show ?thesis by (simp add: skipleading_def)
qed

lemma nth0_Cons [simp]: "nth0 (c # s) 0 = c"
  by (simp add: nth0_def)

lemma not_space_opers:
  "\<not> le_space CHR ''=''" "\<not> le_space CHR ''|''" "\<not> le_space CHR ''&''" "\<not> le_space CHR ''~''"
  by (simp_all add: le_space_def)

lemma parse_oper_tilde_src:
  assumes "list_all le_space ws1" and "list_all le_space ws2"
    and "eq = [] \<or> eq = ''=''"
    and "oper = CHR ''='' \<or> oper = CHR ''|'' \<or> oper = CHR ''&'' \<or> oper = CHR ''~''"
    and "\<not> le_space (nth0 src 0)"
  shows "parse_oper (oper # eq @ ws1 @ ''~'' @ ws2 @ src) =
           Inr (src, if oper = CHR ''~'' then CHR ''&'' else oper, oper \<noteq> CHR ''~'')"
proof -
  let ?t = "CHR ''~'' # ws2 @ src"
  have o: "\<not> le_space oper" using assms(4) not_space_opers by auto
  have 1: "skipleading (oper # eq @ ws1 @ ''~'' @ ws2 @ src) = oper # eq @ ws1 @ ?t"
    using o by (simp add: skipleading_def)
  have t: "\<not> le_space (nth0 ?t 0)" using not_space_opers by simp
  have 2: "skipleading (if nth0 (eq @ ws1 @ ?t) 0 = CHR ''='' then tl (eq @ ws1 @ ?t)
                        else eq @ ws1 @ ?t) = ?t"
  proof (cases "eq = []")
    case True
    have "nth0 (ws1 @ ?t) 0 \<noteq> CHR ''=''"
      using assms(1) not_space_opers by (cases ws1) auto
    with True skipleading_ws [OF assms(1) t] show ?thesis by simp
  next
    case False
    with assms(3) have "eq = ''=''" by simp
    with skipleading_ws [OF assms(1) t] show ?thesis by simp
  qed
  have 3: "skipleading (tl ?t) = src"
    using skipleading_ws [OF assms(2,5)] by simp
  show ?thesis
    unfolding parse_oper_def Let_def 1 
    using assms(4) 2 3 by (auto simp: Let_def)
qed


lemma parse_oper_plain_src:
  assumes "list_all le_space ws1"
    and "eq = [] \<or> eq = ''=''"
    and "oper = CHR ''='' \<or> oper = CHR ''|'' \<or> oper = CHR ''&'' \<or> oper = CHR ''~''"
    and "\<not> le_space (nth0 src 0)" and "nth0 src 0 \<noteq> CHR ''=''" and "nth0 src 0 \<noteq> CHR ''~''"
  shows "parse_oper (oper # eq @ ws1 @ src) =
           Inr (src, if oper = CHR ''~'' then CHR ''&'' else oper, oper = CHR ''~'')"
proof -
  have o: "\<not> le_space oper" using assms(3) not_space_opers by auto
  have 1: "skipleading (oper # eq @ ws1 @ src) = oper # eq @ ws1 @ src"
    using o by (simp add: skipleading_def)
  have 2: "skipleading (if nth0 (eq @ ws1 @ src) 0 = CHR ''='' then tl (eq @ ws1 @ src)
                        else eq @ ws1 @ src) = src"
  proof (cases "eq = []")
    case True
    from assms(4) have ne: "src \<noteq> []" by (auto simp: nth0_def le_space_def)
    have "nth0 (ws1 @ src) 0 \<noteq> CHR ''=''"
    proof (cases ws1)
      case Nil
      with assms(5) show ?thesis by simp
    next
      case (Cons w ws)
      with assms(1) not_space_opers show ?thesis by auto
    qed
    with True skipleading_ws [OF assms(1,4)] show ?thesis by simp
  next
    case False
    with assms(2) have "eq = ''=''" by simp
    with skipleading_ws [OF assms(1,4)] show ?thesis by simp
  qed
  show ?thesis
    unfolding parse_oper_def Let_def 1
    using assms(3,6) 2 by (auto simp: Let_def)
qed

lemma parse_value_numeric:
  assumes "nth0 src 0 \<noteq> CHR ''$''"
  shows "parse_value src oper invert =
           Inr (snd (strtoul src), oper,
                if invert then NOT (word_of_nat (fst (strtoul src)))
                else word_of_nat (fst (strtoul src)))"
  using assms by (simp add: parse_value_def)

lemma parse_value_param:
  "parse_value (CHR ''$'' # d # rest) oper invert =
     (if invert \<and> oper \<noteq> CHR ''&'' then Inl AssertFail
      else Inr (rest, if invert then CHR ''~'' else oper, param_ref d))"
  by (auto simp: parse_value_def nth0_def)

subsection \<open>The two loops of the matcher\<close>

lemma architecture_match_char_match:
  "architecture_match a b = list_all2 char_match a b"
  by (induction a b rule: architecture_match.induct) (auto simp: char_match_def)

lemma mcu_match_exact_items:
  "mcu_match_exact mcufamily namelen head =
     list_ex (\<lambda>t. length t = namelen \<and> length t < 50 \<and> architecture_match t mcufamily)
       (items head)"
proof (induction mcufamily namelen head rule: mcu_match_exact.induct)
  case (1 mcufamily namelen head)
  show ?case
  proof (cases "head = []")
    case True
    then show ?thesis
      by (subst mcu_match_exact.simps, subst items.simps) simp
  next
    case False
    let ?t = "skiptrailing (takeWhile (\<lambda>c. c \<noteq> CHR '','') head)"
    show ?thesis
    proof (cases "length ?t = namelen \<and> length ?t < 50 \<and> architecture_match ?t mcufamily")
      case True
      with False show ?thesis
        by (subst mcu_match_exact.simps, subst items.simps) (simp add: Let_def)
    next
      case f: False
      from "1.IH" [OF False refl refl f]
      have "mcu_match_exact mcufamily namelen (next_item head) =
              list_ex (\<lambda>t. length t = namelen \<and> length t < 50 \<and> architecture_match t mcufamily)
                (items (next_item head))" .
      with False f show ?thesis
        by (subst mcu_match_exact.simps, subst items.simps) (auto simp: Let_def)
    qed
  qed
qed

lemma skiptrailing_prefix: "\<exists>r. seg = skiptrailing seg @ r"
proof -
  have "skiptrailing seg @ rev (takeWhile le_space (rev seg))
          = rev (takeWhile le_space (rev seg) @ dropWhile le_space (rev seg))"
    by (simp only: skiptrailing_def rev_append)
  also have "\<dots> = seg" by (simp only: takeWhile_dropWhile_id rev_rev_ident)
  finally have "seg = skiptrailing seg @ rev (takeWhile le_space (rev seg))" by (rule sym)
  then show ?thesis ..
qed

lemma length_takeWhile_less:
  "\<exists>x\<in>set xs. \<not> P x \<Longrightarrow> length (takeWhile P xs) < length xs"
  by (induction xs) auto

lemma item_prefix:
  "\<exists>r. head = skiptrailing (takeWhile (\<lambda>c. c \<noteq> CHR '','') head) @ r"
proof -
  let ?raw = "takeWhile (\<lambda>c. c \<noteq> CHR '','') head"
  from skiptrailing_prefix [of ?raw] obtain r where r: "?raw = skiptrailing ?raw @ r" ..
  have "head = ?raw @ dropWhile (\<lambda>c. c \<noteq> CHR '','') head" by simp
  with r have "head = skiptrailing ?raw @ (r @ dropWhile (\<lambda>c. c \<noteq> CHR '','') head)"
    by (metis append.assoc)
  then show ?thesis ..
qed

lemma star_in_prefix:
  assumes "head = tok @ r"
  shows "(CHR ''*'' \<in> set head \<and> length (takeWhile (\<lambda>c. c \<noteq> CHR ''*'') head) < length tok)
           = (CHR ''*'' \<in> set tok)"
proof
  assume a: "CHR ''*'' \<in> set head \<and> length (takeWhile (\<lambda>c. c \<noteq> CHR ''*'') head) < length tok"
  let ?m = "length (takeWhile (\<lambda>c. c \<noteq> CHR ''*'') head)"
  from a have "?m < length head" using assms by simp
  then have "\<not> (head ! ?m \<noteq> CHR ''*'')" by (rule nth_length_takeWhile)
  moreover from a assms have "head ! ?m = tok ! ?m" by (simp add: nth_append)
  ultimately have "tok ! ?m = CHR ''*''" by simp
  with a show "CHR ''*'' \<in> set tok" by (metis nth_mem)
next
  assume b: "CHR ''*'' \<in> set tok"
  then have e: "\<exists>x\<in>set tok. \<not> x \<noteq> CHR ''*''" by auto
  then have "takeWhile (\<lambda>c. c \<noteq> CHR ''*'') head = takeWhile (\<lambda>c. c \<noteq> CHR ''*'') tok"
    unfolding assms by (intro takeWhile_append1 [where x = "CHR ''*''"]) (use b in auto)
  moreover from e have "length (takeWhile (\<lambda>c. c \<noteq> CHR ''*'') tok) < length tok"
    by (rule length_takeWhile_less)
  ultimately show "CHR ''*'' \<in> set head \<and> length (takeWhile (\<lambda>c. c \<noteq> CHR ''*'') head) < length tok"
    using b assms by simp
qed

lemma star_prefix_takeWhile:
  assumes "head = tok @ r" and "CHR ''*'' \<in> set tok"
  shows "takeWhile (\<lambda>c. c \<noteq> CHR ''*'') head = takeWhile (\<lambda>c. c \<noteq> CHR ''*'') tok"
  unfolding assms(1) by (intro takeWhile_append1 [where x = "CHR ''*''"]) (use assms(2) in auto)

lemma star_followed_append: "star_followed (a @ b) \<Longrightarrow> star_followed b"
  by (induction a) auto

lemma star_followed_dropWhile: "star_followed s \<Longrightarrow> star_followed (dropWhile P s)"
proof -
  assume a: "star_followed s"
  have "s = takeWhile P s @ dropWhile P s" by simp
  with a star_followed_append [of "takeWhile P s" "dropWhile P s"] show ?thesis by simp
qed

lemma star_followed_tl: "star_followed s \<Longrightarrow> star_followed (tl s)"
  by (cases s) auto

lemma star_followed_next_item: "star_followed head \<Longrightarrow> star_followed (next_item head)"
  by (simp add: next_item_def Let_def skipleading_def star_followed_dropWhile star_followed_tl)

lemma star_followed_assert:
  assumes "star_followed head" and "CHR ''*'' \<in> set head"
  shows "nth0 head (length (takeWhile (\<lambda>c. c \<noteq> CHR ''*'') head) + 1) = CHR '',''
         \<or> nth0 head (length (takeWhile (\<lambda>c. c \<noteq> CHR ''*'') head) + 1) = CHR '' ''
         \<or> nth0 head (length (takeWhile (\<lambda>c. c \<noteq> CHR ''*'') head) + 1) = CHR 0x00"
proof -
  let ?a = "takeWhile (\<lambda>c. c \<noteq> CHR ''*'') head"
  let ?b = "dropWhile (\<lambda>c. c \<noteq> CHR ''*'') head"
  from assms(2) have "?b \<noteq> []" by simp
  moreover have "hd ?b = CHR ''*''" using assms(2) hd_dropWhile [of "\<lambda>c. c \<noteq> CHR ''*''" head]
    by auto
  ultimately obtain rest where b: "?b = CHR ''*'' # rest" by (cases ?b) auto
  have h: "head = ?a @ CHR ''*'' # rest" using b by (metis takeWhile_dropWhile_id)
  from assms(1) have "star_followed (CHR ''*'' # rest)"
    using star_followed_append [of ?a "CHR ''*'' # rest"] h by simp
  then have r: "rest = [] \<or> hd rest = CHR '','' \<or> hd rest = CHR '' ''" by simp
  have "nth0 head (length ?a + 1) = nth0 rest 0"
    by (subst h) (simp add: nth0_def nth_append)
  with r show ?thesis by (cases rest) (auto simp: nth0_def)
qed

lemma mcu_match_prefix_items:
  "star_followed head \<Longrightarrow>
   mcu_match_prefix mcufamily namelen head =
     Inr (list_ex (prefix_item mcufamily namelen) (items head))"
proof (induction mcufamily namelen head rule: mcu_match_prefix.induct)
  case (1 mcufamily namelen head)
  show ?case
  proof (cases "head = []")
    case True
    then show ?thesis
      by (subst mcu_match_prefix.simps, subst items.simps) simp
  next
    case False
    let ?t = "skiptrailing (takeWhile (\<lambda>c. c \<noteq> CHR '','') head)"
    let ?m = "length (takeWhile (\<lambda>c. c \<noteq> CHR ''*'') head)"
    let ?C = "CHR ''*'' \<in> set head \<and> ?m < length ?t"
    let ?A = "nth0 head (?m + 1) = CHR '','' \<or> nth0 head (?m + 1) = CHR '' ''
                \<or> nth0 head (?m + 1) = CHR 0x00"
    let ?G = "namelen > ?m \<and> ?m < 50 \<and> architecture_match (take ?m head) (take ?m mcufamily)"
    let ?R = "mcu_match_prefix mcufamily namelen (next_item head)"
    have step: "mcu_match_prefix mcufamily namelen head =
        (if ?C then
           if \<not> ?A then Inl AssertFail
           else if ?m = 0 then Inr True
           else if ?G then Inr True
           else ?R
         else ?R)"
      by (subst mcu_match_prefix.simps) (simp only: False if_False Let_def)
    have it: "items head = ?t # items (next_item head)"
      by (subst items.simps) (simp only: False if_False)
    from item_prefix [of head] obtain r where r: "head = ?t @ r" ..
    note sn = star_followed_next_item [OF "1.prems"]
    show ?thesis
    proof (cases "CHR ''*'' \<in> set ?t")
      case nostar: False
      then have c: "\<not> ?C"
        using star_in_prefix [OF r] by simp
      from nostar have np: "\<not> prefix_item mcufamily namelen ?t" by (simp add: prefix_item_def)
      from "1.IH"(2) [OF False refl refl c sn]
      have "?R = Inr (list_ex (prefix_item mcufamily namelen) (items (next_item head)))" .
      with c np show ?thesis
        by (simp only: step it if_False list_ex_Cons_iff list_ex_Nil_iff simp_thms)
    next
      case star: True
      then have c: "?C"
        using star_in_prefix [OF r] by simp
      have tw: "takeWhile (\<lambda>c. c \<noteq> CHR ''*'') ?t = takeWhile (\<lambda>c. c \<noteq> CHR ''*'') head"
        using star_prefix_takeWhile [OF r star] by simp
      have tk: "take ?m head = take ?m ?t"
        using c by (subst r) simp
      from star_followed_assert [OF "1.prems"] c
      have as: "?A" by simp
      have pi: "prefix_item mcufamily namelen ?t = (?m = 0 \<or> ?G)"
        using star by (simp only: prefix_item_def tw tk [symmetric] simp_thms)
      show ?thesis
      proof (cases "?m = 0 \<or> ?G")
        case True
        with pi have p: "prefix_item mcufamily namelen ?t" by simp
        from True c as have "mcu_match_prefix mcufamily namelen head = Inr True"
          by (simp only: step if_True simp_thms if_False split: if_split) auto
        with p show ?thesis by (simp only: it list_ex_Cons_iff list_ex_Nil_iff simp_thms)
      next
        case f: False
        with pi have np: "\<not> prefix_item mcufamily namelen ?t" by simp
        from f have f1: "?m \<noteq> 0" and f2: "\<not> ?G" by auto
        from as have as': "\<not> \<not> ?A" by simp
        from "1.IH"(1) [OF False refl refl c as' f1 f2 sn]
        have ih: "?R = Inr (list_ex (prefix_item mcufamily namelen) (items (next_item head)))" .
        from c as f1 f2 have "mcu_match_prefix mcufamily namelen head = ?R"
          by (simp only: step if_True if_False simp_thms)
        with ih np show ?thesis by (simp only: it list_ex_Cons_iff list_ex_Nil_iff simp_thms)
      qed
    qed
  qed
qed

lemma comma_not_space: "\<not> le_space CHR '',''"
  by (simp add: le_space_def)

lemma split_commas_unfold:
  "split_commas s =
     takeWhile (\<lambda>c. c \<noteq> CHR '','') s
       # (case dropWhile (\<lambda>c. c \<noteq> CHR '','') s of [] \<Rightarrow> [] | c # r \<Rightarrow> split_commas r)"
  by (induction s) (auto split: list.splits)

lemma takeWhile_skipleading:
  "takeWhile (\<lambda>c. c \<noteq> CHR '','') (skipleading s) = skipleading (takeWhile (\<lambda>c. c \<noteq> CHR '','') s)"
  using comma_not_space by (induction s) (auto simp: skipleading_def)

lemma dropWhile_skipleading:
  "skipleading s \<noteq> [] \<Longrightarrow>
   dropWhile (\<lambda>c. c \<noteq> CHR '','') (skipleading s) = dropWhile (\<lambda>c. c \<noteq> CHR '','') s"
  using comma_not_space by (induction s) (auto simp: skipleading_def)

lemma skipleading_Nil_no_comma:
  "skipleading s = [] \<Longrightarrow> takeWhile (\<lambda>c. c \<noteq> CHR '','') s = s"
  using comma_not_space by (induction s) (auto simp: skipleading_def split: if_splits)

lemma tokens_unfold:
  "tokens s =
     trim (takeWhile (\<lambda>c. c \<noteq> CHR '','') s)
       # (case dropWhile (\<lambda>c. c \<noteq> CHR '','') s of [] \<Rightarrow> [] | c # r \<Rightarrow> tokens r)"
proof (cases "dropWhile (\<lambda>c. c \<noteq> CHR '','') s")
  case Nil
  have "split_commas s = [takeWhile (\<lambda>c. c \<noteq> CHR '','') s]"
    by (subst split_commas_unfold) (simp only: Nil list.case)
  then show ?thesis by (simp only: tokens_def Nil list.case list.map)
next
  case (Cons c r)
  have "split_commas s = takeWhile (\<lambda>c. c \<noteq> CHR '','') s # split_commas r"
    by (subst split_commas_unfold) (simp only: Cons list.case)
  then show ?thesis by (simp only: tokens_def Cons list.case list.map)
qed

lemma items_tokens:
  "insert [] (set (items (skipleading s))) = insert [] (set (tokens s))"
proof (induction s rule: length_induct)
  case (1 s)
  let ?a = "takeWhile (\<lambda>c. c \<noteq> CHR '','') s"
  let ?rest = "dropWhile (\<lambda>c. c \<noteq> CHR '','') s"
  show ?case
  proof (cases "skipleading s = []")
    case True
    from skipleading_Nil_no_comma [OF True] have a: "?a = s" .
    then have "?rest = []" by (metis append_self_conv takeWhile_dropWhile_id)
    then have "tokens s = [trim ?a]"
      by (subst tokens_unfold) (simp only: list.case)
    moreover have "trim ?a = []"
      by (simp only: trim_def a True) (simp add: skiptrailing_def)
    ultimately have "tokens s = [[]]" by simp
    moreover from True have "items (skipleading s) = []" by (subst items.simps) simp
    ultimately show ?thesis by simp
  next
    case False
    let ?head = "skipleading s"
    have t: "skiptrailing (takeWhile (\<lambda>c. c \<noteq> CHR '','') ?head) = trim ?a"
      by (simp add: takeWhile_skipleading trim_def)
    have d: "dropWhile (\<lambda>c. c \<noteq> CHR '','') ?head = ?rest"
      by (rule dropWhile_skipleading [OF False])
    have it: "items ?head = trim ?a # items (next_item ?head)"
      using False t by (subst items.simps) simp
    show ?thesis
    proof (cases ?rest)
      case Nil
      with d have "next_item ?head = []" by (simp add: next_item_def)
      then have "items (next_item ?head) = []" by (subst items.simps) simp
      moreover have "tokens s = [trim ?a]"
        by (subst tokens_unfold) (simp only: Nil list.case)
      ultimately show ?thesis using it by simp
    next
      case (Cons c r)
      with d have n: "next_item ?head = skipleading r" by (simp add: next_item_def)
      have "length ?rest \<le> length s" by (rule length_dropWhile_le)
      with Cons have "length r < length s" by simp
      with "1.IH" have "insert [] (set (items (skipleading r))) = insert [] (set (tokens r))"
        by blast
      moreover have "tokens s = trim ?a # tokens r"
        by (subst tokens_unfold) (simp only: Cons list.case)
      ultimately show ?thesis using it n by auto
    qed
  qed
qed

lemma list_ex_items_tokens:
  assumes "\<not> P []"
  shows "list_ex P (items (skipleading s)) = list_ex P (tokens s)"
proof -
  have "list_ex P (items (skipleading s)) = (\<exists>t \<in> insert [] (set (items (skipleading s))). P t)"
    using assms by (auto simp: list_ex_iff)
  also have "\<dots> = (\<exists>t \<in> insert [] (set (tokens s)). P t)"
    by (simp only: items_tokens)
  also have "\<dots> = list_ex P (tokens s)"
    using assms by (auto simp: list_ex_iff)
  finally show ?thesis .
qed

lemma star_last_items:
  assumes "star_last s" and "t \<in> set (items (skipleading s))"
  shows "CHR ''*'' \<notin> set (butlast t)"
proof -
  from assms(2) have "t \<in> insert [] (set (tokens s))"
    using items_tokens [of s] by blast
  with assms(1) show ?thesis by (auto simp: star_last_def list_all_iff)
qed

lemma star_token_shape:
  assumes "CHR ''*'' \<in> set t" and "CHR ''*'' \<notin> set (butlast t)"
  shows "t = butlast t @ [CHR ''*'']"
    and "takeWhile (\<lambda>c. c \<noteq> CHR ''*'') t = butlast t"
proof -
  from assms(1) have ne: "t \<noteq> []" by auto
  then have bl: "t = butlast t @ [last t]" by simp
  from assms(1) have "CHR ''*'' \<in> set (butlast t @ [last t])" using bl by simp
  with assms(2) have l: "last t = CHR ''*''" by auto
  with bl show s: "t = butlast t @ [CHR ''*'']" by simp
  have "takeWhile (\<lambda>c. c \<noteq> CHR ''*'') (butlast t @ [CHR ''*'']) = butlast t"
    using assms(2) by (subst takeWhile_append2) auto
  with s show "takeWhile (\<lambda>c. c \<noteq> CHR ''*'') t = butlast t" by simp
qed

lemma prefix_item_token:
  assumes "CHR ''*'' \<notin> set (butlast t)"
  shows "prefix_item family (length family) t
           = (length (butlast t) < 50 \<and> prefix_token family t)"
proof (cases "CHR ''*'' \<in> set t")
  case False
  then have "\<not> prefix_item family (length family) t" by (simp add: prefix_item_def)
  moreover from False have "\<not> prefix_token family t"
    by (auto simp: prefix_token_def dest: last_in_set)
  ultimately show ?thesis by simp
next
  case True
  note sh = star_token_shape [OF True assms]
  let ?b = "butlast t"
  have tk: "take (length ?b) t = ?b" by (subst sh(1)) simp
  have one: "(t = ''*'') = (?b = [])" by (subst sh(1)) simp
  have ne: "t \<noteq> []" "last t = CHR ''*''" using True sh(1) by (auto simp: last_conv_nth
      intro: last_snoc [of ?b "CHR ''*''", THEN subst [where P = "\<lambda>x. last t = x"]])
  have "prefix_item family (length family) t
          = (length ?b = 0 \<or> (length ?b < length family \<and> length ?b < 50
               \<and> list_all2 char_match ?b (take (length ?b) family)))"
    using True by (simp only: prefix_item_def sh(2) tk architecture_match_char_match simp_thms)
  also have "\<dots> = (?b = [] \<or> (length ?b < length family \<and> length ?b < 50
               \<and> list_all2 char_match ?b (take (length ?b) family)))"
    by (simp only: length_0_conv)
  also have "\<dots> = (length ?b < 50 \<and> prefix_token family t)"
    using ne assms one by (auto simp: prefix_token_def)
  finally show ?thesis .
qed

lemma exact_item_token:
  assumes "CHR ''*'' \<notin> set (butlast t)"
  shows "((length t = length family \<and> length t < 50 \<and> architecture_match t family)
            \<or> prefix_item family (length family) t)
         = ((length t < 50 \<and> exact_token family t)
            \<or> (length (butlast t) < 50 \<and> prefix_token family t))"
proof -
  let ?E = "length t = length family \<and> length t < 50 \<and> architecture_match t family"
  have e: "?E = (length t < 50 \<and> list_all2 char_match t family)"
    by (auto simp: architecture_match_char_match dest: list_all2_lengthD)
  have star: "prefix_item family (length family) t" if E: "?E" and st: "CHR ''*'' \<in> set t"
  proof -
    note sh = star_token_shape [OF st assms]
    let ?b = "butlast t"
    from E have l2: "list_all2 char_match (?b @ [CHR ''*'']) family"
      using sh(1) e by simp
    then obtain f c where f: "family = f @ [c]" and fb: "list_all2 char_match ?b f"
      by (auto simp: list_all2_append1 list_all2_Cons1)
    from fb have len: "length ?b = length f" by (rule list_all2_lengthD)
    from E have "length (?b @ [CHR ''*'']) < 50" using sh(1) by simp
    then have "length ?b < 50" by simp
    then have b50: "length ?b < 50" .
    have tk: "take (length ?b) t = ?b" by (subst sh(1)) simp
    have tf: "take (length ?b) family = f" using f len by simp
    have lf: "length ?b < length family" using f len by simp
    from st b50 lf fb show ?thesis
      by (simp only: prefix_item_def sh(2) tk tf architecture_match_char_match simp_thms)
  qed
  show ?thesis
    unfolding prefix_item_token [OF assms, symmetric]
    using star e by (auto simp: exact_token_def)
qed

lemma no_suffix_namelen:
  assumes "\<not> has_arch_suffix mcu_family"
  shows "family_namelen mcu_family = Inr (length mcu_family)"
    and "strip_arch_suffix mcu_family = mcu_family"
  using assms
  by (auto simp: has_arch_suffix_def family_namelen_def strip_arch_suffix_def
           split: option.splits)

lemma arch_suffix_exact_match_fails:
  "mcu_match ''STM32F03 M0'' ''STM32F03'' = Inr False
   \<and> matches_spec ''STM32F03 M0'' ''STM32F03''"
  by code_simp

section \<open>The generic SWO script on an STM32F407\<close>

text \<open>
  C1, as the specification states it: after a load for the family STM32F407 with
  architecture M4 and no override file, the calls of the formatter for
  \<^verbatim>\<open>swo_generic\<close> with the parameters 2, 15, 115200 and \<^verbatim>\<open>0xFFFFFFFF\<close> give eight
  lines whose addresses are written with capital hexadecimal digits. The formatter
  prints addresses with \<^verbatim>\<open>%x\<close>, in lower case, so the sequence of the specification
  is not the one the calls return.
\<close>

theorem swo_generic_uppercase_counterexample:
  "load_and_format ''STM32F407'' (Some ''M4'') None 9 (Some ''swo_generic'')
     (Some [2, 15, 115200, 0xFFFFFFFF]) \<noteq>
   Inr [Some (''set {int}0xE000EDFC = 0x1000000'' @ NL),
        Some (''set {int}0xE0040004 = 0x1'' @ NL),
        Some (''set {int}0xE00400F0 = 0x2'' @ NL),
        Some (''set {int}0xE0040010 = 0xf'' @ NL),
        Some (''set {int}0xE0040304 = 0x0'' @ NL),
        Some (''set {int}0xE0000FB0 = 0xc5acce55'' @ NL),
        Some (''set {int}0xE0000E80 = 0x11'' @ NL),
        Some (''set {int}0xE0000E40 = 0x0'' @ NL),
        None]"
  by code_simp

text \<open>
  C1, amended: the eight calls return, in order, the eight lines below, with every
  hexadecimal digit of the address in lower case, and the ninth call and the tenth
  return no line.
\<close>

theorem swo_generic_stm32f407:
  "load_and_format ''STM32F407'' (Some ''M4'') None 10 (Some ''swo_generic'')
     (Some [2, 15, 115200, 0xFFFFFFFF]) =
   Inr [Some (''set {int}0xe000edfc = 0x1000000'' @ NL),
        Some (''set {int}0xe0040004 = 0x1'' @ NL),
        Some (''set {int}0xe00400f0 = 0x2'' @ NL),
        Some (''set {int}0xe0040010 = 0xf'' @ NL),
        Some (''set {int}0xe0040304 = 0x0'' @ NL),
        Some (''set {int}0xe0000fb0 = 0xc5acce55'' @ NL),
        Some (''set {int}0xe0000e80 = 0x11'' @ NL),
        Some (''set {int}0xe0000e40 = 0x0'' @ NL),
        None, None]"
  by code_simp

section \<open>Register lookup in the parser\<close>

text \<open>
  C3: the parser compares an identifier with a register name by \<^verbatim>\<open>strncmp\<close> over
  the length of the identifier only, so an identifier that is a proper prefix of a
  register name resolves to that register. With an override file that defines the
  script \<^verbatim>\<open>probe\<close> by the line \<^verbatim>\<open>SCB_D = 1\<close>, the load succeeds and the script holds
  a store to \<^verbatim>\<open>0xE000EDF0\<close>, the address of \<^verbatim>\<open>SCB_DHCSR\<close>, although no register
  is named \<^verbatim>\<open>SCB_D\<close>.
\<close>

theorem prefix_identifier_resolves:
  "load_and_lines ''STM32F407'' (Some ''M4'')
     (Some [''define probe [*]'' @ NL, ''SCB_D = 1'' @ NL, ''end'' @ NL]) 2 (Some ''probe'') =
   Inr [Some \<lparr>line_address = 0xE000EDF0, line_value = 1, line_size = 4,
              line_oper = CHR ''=''\<rparr>,
        None]"
  by code_simp

section \<open>Shadowing in the script store\<close>

text \<open>
  C5: a script is inserted at the head of the list and the lookup takes the first script
  whose name matches. Let a script named \<open>nm\<close> with lines \<open>ls'\<close> be in the list, and let
  a script of the same name with lines \<open>ls\<close> be inserted after it; scripts of other
  names may have been inserted before, between and after the two. After a reset of the
  cursor, the successive calls of the iterator for \<open>nm\<close> return the lines \<open>ls\<close> of the
  later script, front to back, and then nothing; the scripts of the list are not
  changed by the calls, and the insertion leaves the earlier entries as they were.
\<close>

theorem later_script_shadows:
  assumes "\<forall>x\<in>set newer. \<not> stricmp_eq nm (script_name x)"
    and "scripts st = newer @ add_script nm ls (between @ add_script nm ls' older)"
  shows "line_calls (Suc (length ls + k)) (Some nm) (bmscript_clearcache st) =
           Inr (map Some ls @ replicate (Suc k) None,
                st\<lparr>cache := \<lparr>cache_name = Some nm, cache_lines = ls,
                              cache_index = length ls\<rparr>\<rparr>)
         \<and> tl (add_script nm ls (between @ add_script nm ls' older))
             = between @ add_script nm ls' older"
proof -
  let ?s = "\<lparr>script_name = nm, script_lines = ls\<rparr>"
  let ?st = "bmscript_clearcache st"
  have d: "dropWhile (\<lambda>script. \<not> stricmp_eq nm (script_name script)) (scripts ?st)
             = ?s # (between @ add_script nm ls' older)"
    using dropWhile_stricmp_append [OF assms(1)] assms(2)
    by (simp add: bmscript_clearcache_def add_script_def)
  have "line_calls (Suc (length (script_lines ?s) + k)) (Some nm) ?st =
           Inr (map Some (script_lines ?s) @ replicate (Suc k) None,
                ?st\<lparr>cache := \<lparr>cache_name = Some nm, cache_lines = script_lines ?s,
                              cache_index = length (script_lines ?s)\<rparr>\<rparr>)"
    by (rule line_calls_fresh [OF _ d]) (simp_all add: bmscript_clearcache_def)
  then show ?thesis by (simp add: bmscript_clearcache_def add_script_def)
qed

theorem later_script_shadows_witness:
  "line_calls (Suc (length [mk_line 0x40048000 CHR ''='' 5] + 1)) (Some ''memremap'')
     (bmscript_clearcache (mk_session lpc1343_scripts None [] 0)) =
   Inr (map Some [mk_line 0x40048000 CHR ''='' 5] @ replicate (Suc 1) None,
        (mk_session lpc1343_scripts None [] 0)
          \<lparr>cache := \<lparr>cache_name = Some ''memremap'',
                      cache_lines = [mk_line 0x40048000 CHR ''='' 5],
                      cache_index = length [mk_line 0x40048000 CHR ''='' 5]\<rparr>\<rparr>)"
proof -
  have h1: "\<forall>x\<in>set []. \<not> stricmp_eq ''memremap'' (script_name x)" by simp
  have h2: "scripts (mk_session lpc1343_scripts None [] 0) =
              [] @ add_script ''memremap'' [mk_line 0x40048000 CHR ''='' 5]
                     (butlast (tl lpc1343_scripts)
                        @ add_script ''memremap'' [mk_line 0x40048000 CHR ''='' 2] [])"
    by code_simp
  from later_script_shadows [OF h1 h2, of 1] show ?thesis by blast
qed

section \<open>A parameter that is not present\<close>

text \<open>
  C6: let the iterator return a line whose address is a parameter reference, and let the
  parameter have the value \<^verbatim>\<open>0xFFFFFFFF\<close> (the operator of the line being one the
  formatter knows). Then the formatter returns no text, the session is the one the
  iterator left, in which the cursor stands behind the skipped line, and the next call
  (without a name, or with the cached name) goes on with the line that follows, or
  finds the script at its end.
\<close>

theorem missing_parameter_skips:
  assumes "bmscript_line name st = Inr (Some l, st')"
    and "operstr (line_oper l) \<noteq> None"
    and "line_address l AND NOT 0xf = SCRIPT_MAGIC"
    and "replace_param (line_address l) params = Inr 0xFFFFFFFF"
  shows "bmscript_line_fmt name params st = Inr (None, st')
         \<and> 0 < cache_index (cache st')
         \<and> l = cache_lines (cache st') ! (cache_index (cache st') - 1)
         \<and> (\<forall>name'. name' = None \<or> name' = cache_name (cache st') \<longrightarrow>
               bmscript_line name' st' =
                 (if cache_index (cache st') = length (cache_lines (cache st'))
                  then Inr (None, st')
                  else Inr (Some (cache_lines (cache st') ! cache_index (cache st')),
                            st'\<lparr>cache := (cache st')\<lparr>cache_index := cache_index (cache st') + 1\<rparr>\<rparr>)))"
proof -
  from bmscript_line_Some [OF assms(1)]
  have s: "cache_name (cache st') \<noteq> None" "0 < cache_index (cache st')"
    "cache_index (cache st') \<le> length (cache_lines (cache st'))"
    "l = cache_lines (cache st') ! (cache_index (cache st') - 1)"
    by simp_all
  have f: "bmscript_line_fmt name params st = Inr (None, st')"
    using assms by (auto simp: bmscript_line_fmt_def)
  from s(1) obtain nm where nm: "cache_name (cache st') = Some nm" by auto
  have c: "bmscript_line name' st' =
                 (if cache_index (cache st') = length (cache_lines (cache st'))
                  then Inr (None, st')
                  else Inr (Some (cache_lines (cache st') ! cache_index (cache st')),
                            st'\<lparr>cache := (cache st')\<lparr>cache_index := cache_index (cache st') + 1\<rparr>\<rparr>))"
    if "name' = None \<or> name' = cache_name (cache st')" for name'
    using that nm s(3) by (intro bmscript_line_continue [OF nm]) auto
  from f s(2) s(4) c show ?thesis by blast
qed

theorem missing_parameter_skips_witness:
  "bmscript_line_fmt (Some ''swo_generic'') (Some [2, 15, 115200, 0xFFFFFFFFFFFFFFFF])
     (mk_session stm32f03_m0_scripts None [] 0) =
   Inr (None, mk_session stm32f03_m0_scripts (Some ''swo_generic'')
                [mk_line (SCRIPT_MAGIC + 3) CHR ''='' (SCRIPT_MAGIC + 2)] 1)"
proof -
  let ?l = "mk_line (SCRIPT_MAGIC + 3) CHR ''='' (SCRIPT_MAGIC + 2)"
  have h1: "bmscript_line (Some ''swo_generic'') (mk_session stm32f03_m0_scripts None [] 0) =
              Inr (Some ?l, mk_session stm32f03_m0_scripts (Some ''swo_generic'') [?l] 1)"
    by code_simp
  have h2: "operstr (line_oper ?l) \<noteq> None" by code_simp
  have h3: "line_address ?l AND NOT 0xf = SCRIPT_MAGIC" by code_simp
  have h4: "replace_param (line_address ?l) (Some [2, 15, 115200, 0xFFFFFFFFFFFFFFFF])
              = Inr 0xFFFFFFFF"
    by code_simp
  from missing_parameter_skips [OF h1 h2 h3 h4] show ?thesis by blast
qed

section \<open>Running a script twice\<close>

text \<open>
  C9: \<open>n\<close> calls of the formatter from a reset cursor, a reset of the cursor, and \<open>n\<close> calls
  with the same arguments again return the same sequence of texts (and end in the same
  session). Once the cursor is at the end of the script, a call with the cached name
  or without a name returns nothing and leaves the session as it is, for the iterator
  and for the formatter; \<^verbatim>\<open>bmscript_clearcache\<close> puts the cursor back to index 0 with no
  cached name.
\<close>

theorem rerun_after_clearcache:
  "(format_calls n name params (bmscript_clearcache st) = Inr (rs, st1) \<longrightarrow>
      format_calls n name params (bmscript_clearcache st1) = Inr (rs, st1))
   \<and> (cache_name (cache st) = Some nm
        \<and> cache_index (cache st) = length (cache_lines (cache st))
        \<and> (name' = None \<or> name' = Some nm) \<longrightarrow>
          bmscript_line name' st = Inr (None, st)
          \<and> bmscript_line_fmt name' params st = Inr (None, st)
          \<and> cache_index (cache (bmscript_clearcache st)) = 0
          \<and> cache_name (cache (bmscript_clearcache st)) = None)"
proof (intro conjI impI)
  assume a: "format_calls n name params (bmscript_clearcache st) = Inr (rs, st1)"
  from clearcache_eq [OF format_calls_store [OF a]]
  have "bmscript_clearcache st1 = bmscript_clearcache st"
    by (simp add: bmscript_clearcache_def)
  with a show "format_calls n name params (bmscript_clearcache st1) = Inr (rs, st1)"
    by simp
next
  assume b: "cache_name (cache st) = Some nm
        \<and> cache_index (cache st) = length (cache_lines (cache st))
        \<and> (name' = None \<or> name' = Some nm)"
  then show l: "bmscript_line name' st = Inr (None, st)"
    using bmscript_line_continue [of st nm name'] by simp
  then show "bmscript_line_fmt name' params st = Inr (None, st)"
    by (simp add: bmscript_line_fmt_def)
  show "cache_index (cache (bmscript_clearcache st)) = 0"
    by (simp add: bmscript_clearcache_def)
  show "cache_name (cache (bmscript_clearcache st)) = None"
    by (simp add: bmscript_clearcache_def)
qed

theorem rerun_after_clearcache_witness:
  "format_calls 10 (Some ''swo_generic'') (Some [2, 15, 115200, 0xFFFFFFFF])
     (bmscript_clearcache
        (mk_session stm32f407_scripts (Some ''swo_generic'') swo_generic_lines 8)) =
   Inr ([Some (''set {int}0xe000edfc = 0x1000000'' @ NL),
         Some (''set {int}0xe0040004 = 0x1'' @ NL),
         Some (''set {int}0xe00400f0 = 0x2'' @ NL),
         Some (''set {int}0xe0040010 = 0xf'' @ NL),
         Some (''set {int}0xe0040304 = 0x0'' @ NL),
         Some (''set {int}0xe0000fb0 = 0xc5acce55'' @ NL),
         Some (''set {int}0xe0000e80 = 0x11'' @ NL),
         Some (''set {int}0xe0000e40 = 0x0'' @ NL),
         None, None],
        mk_session stm32f407_scripts (Some ''swo_generic'') swo_generic_lines 8)
   \<and> bmscript_line (Some ''swo_generic'')
        (mk_session stm32f407_scripts (Some ''swo_generic'') swo_generic_lines 8) =
      Inr (None, mk_session stm32f407_scripts (Some ''swo_generic'') swo_generic_lines 8)"
proof -
  let ?S = "mk_session stm32f407_scripts None [] 0"
  let ?ps = "Some [2, 15, 115200, 0xFFFFFFFF] :: 64 word list option"
  let ?S1 = "mk_session stm32f407_scripts (Some ''swo_generic'') swo_generic_lines 8"
  let ?rs = "[Some (''set {int}0xe000edfc = 0x1000000'' @ NL),
         Some (''set {int}0xe0040004 = 0x1'' @ NL),
         Some (''set {int}0xe00400f0 = 0x2'' @ NL),
         Some (''set {int}0xe0040010 = 0xf'' @ NL),
         Some (''set {int}0xe0040304 = 0x0'' @ NL),
         Some (''set {int}0xe0000fb0 = 0xc5acce55'' @ NL),
         Some (''set {int}0xe0000e80 = 0x11'' @ NL),
         Some (''set {int}0xe0000e40 = 0x0'' @ NL),
         None, None]"
  have h1: "format_calls 10 (Some ''swo_generic'') ?ps (bmscript_clearcache ?S)
              = Inr (?rs, ?S1)"
    by code_simp
  have h2: "cache_name (cache ?S1) = Some ''swo_generic''
            \<and> cache_index (cache ?S1) = length (cache_lines (cache ?S1))
            \<and> (Some ''swo_generic'' = None \<or> Some ''swo_generic'' = Some ''swo_generic'')"
    by code_simp
  from rerun_after_clearcache [of 10 "Some ''swo_generic''" ?ps ?S ?rs ?S1] h1
  have a: "format_calls 10 (Some ''swo_generic'') ?ps (bmscript_clearcache ?S1) = Inr (?rs, ?S1)"
    by blast
  from rerun_after_clearcache [where st = ?S1 and nm = "''swo_generic''"
      and name' = "Some ''swo_generic''" and params = ?ps] h2
  have b: "bmscript_line (Some ''swo_generic'') ?S1 = Inr (None, ?S1)"
    by blast
  from a b show ?thesis by blast
qed

section \<open>The cached name is compared with case\<close>

text \<open>
  C10: in a session whose cursor is on the script named \<open>nm\<close> (at any index), a call of
  the iterator with a name that equals \<open>nm\<close> up to the case of letters, but is not
  \<open>nm\<close>, looks the script up again, finds the same script and starts at its first line;
  a call with \<open>nm\<close> itself, or without a name, goes on from the current index.
\<close>

theorem cache_name_case_sensitive:
  assumes "cache_ok st" and "cache_name (cache st) = Some nm"
    and "stricmp_eq nm' nm" and "nm' \<noteq> nm"
  shows "bmscript_line (Some nm') st =
           (if cache_lines (cache st) = []
            then Inr (None, st\<lparr>cache := (cache st)\<lparr>cache_index := 0\<rparr>\<rparr>)
            else Inr (Some (cache_lines (cache st) ! 0),
                      st\<lparr>cache := (cache st)\<lparr>cache_index := 1\<rparr>\<rparr>))
         \<and> (\<forall>name. name = None \<or> name = Some nm \<longrightarrow>
               bmscript_line name st =
                 (if cache_index (cache st) = length (cache_lines (cache st))
                  then Inr (None, st)
                  else Inr (Some (cache_lines (cache st) ! cache_index (cache st)),
                            st\<lparr>cache := (cache st)\<lparr>cache_index := cache_index (cache st) + 1\<rparr>\<rparr>)))"
proof -
  from assms(1,2) obtain script rest where
    d: "dropWhile (\<lambda>script. \<not> stricmp_eq nm (script_name script)) (scripts st) = script # rest"
    and s: "script_name script = nm" "script_lines script = cache_lines (cache st)"
    and le: "cache_index (cache st) \<le> length (cache_lines (cache st))"
    by (auto simp: cache_ok_def split: list.splits)
  have d': "dropWhile (\<lambda>script. \<not> stricmp_eq nm' (script_name script)) (scripts st)
              = script # rest"
    using d unfolding stricmp_eq_trans [OF assms(3), symmetric] .
  have c: "\<lparr>cache_name = Some nm, cache_lines = cache_lines (cache st), cache_index = i\<rparr>
             = (cache st)\<lparr>cache_index := i\<rparr>" for i
    using assms(2) by (cases "cache st") simp
  from assms(2,4) have "cache_name (cache st) \<noteq> Some nm'" by simp
  from bmscript_line_lookup [OF this] d' s
  have "bmscript_line (Some nm') st =
           (if cache_lines (cache st) = []
            then Inr (None, st\<lparr>cache := \<lparr>cache_name = Some nm,
                        cache_lines = cache_lines (cache st), cache_index = 0\<rparr>\<rparr>)
            else Inr (Some (cache_lines (cache st) ! 0),
                      st\<lparr>cache := \<lparr>cache_name = Some nm,
                        cache_lines = cache_lines (cache st), cache_index = 1\<rparr>\<rparr>))"
    by auto
  then have 1: "bmscript_line (Some nm') st =
           (if cache_lines (cache st) = []
            then Inr (None, st\<lparr>cache := (cache st)\<lparr>cache_index := 0\<rparr>\<rparr>)
            else Inr (Some (cache_lines (cache st) ! 0),
                      st\<lparr>cache := (cache st)\<lparr>cache_index := 1\<rparr>\<rparr>))"
    by (simp only: c)
  from 1 bmscript_line_continue [OF assms(2) _ le] show ?thesis by blast
qed

theorem cache_name_case_sensitive_witness:
  "bmscript_line (Some ''SWO_Generic'')
     (mk_session stm32f407_scripts (Some ''swo_generic'') swo_generic_lines 3) =
   Inr (Some (mk_line 0xE000EDFC CHR ''='' 0x1000000),
        mk_session stm32f407_scripts (Some ''swo_generic'') swo_generic_lines 1)
   \<and> bmscript_line (Some ''swo_generic'')
     (mk_session stm32f407_scripts (Some ''swo_generic'') swo_generic_lines 3) =
   Inr (Some (mk_line 0xE0040010 CHR ''='' (SCRIPT_MAGIC + 1)),
        mk_session stm32f407_scripts (Some ''swo_generic'') swo_generic_lines 4)"
proof -
  let ?S = "mk_session stm32f407_scripts (Some ''swo_generic'') swo_generic_lines 3"
  have h1: "cache_ok ?S" by code_simp
  have h2: "cache_name (cache ?S) = Some ''swo_generic''" by code_simp
  have h3: "stricmp_eq ''SWO_Generic'' ''swo_generic''" by code_simp
  have h4: "''SWO_Generic'' \<noteq> ''swo_generic''" by simp
  have e1: "(if cache_lines (cache ?S) = []
            then (Inr (None, ?S\<lparr>cache := (cache ?S)\<lparr>cache_index := 0\<rparr>\<rparr>)
                    :: error + (SCRIPTLINE option \<times> session))
            else Inr (Some (cache_lines (cache ?S) ! 0),
                      ?S\<lparr>cache := (cache ?S)\<lparr>cache_index := 1\<rparr>\<rparr>)) =
     Inr (Some (mk_line 0xE000EDFC CHR ''='' 0x1000000),
        mk_session stm32f407_scripts (Some ''swo_generic'') swo_generic_lines 1)"
    by code_simp
  have e2: "(if cache_index (cache ?S) = length (cache_lines (cache ?S))
                  then (Inr (None, ?S) :: error + (SCRIPTLINE option \<times> session))
                  else Inr (Some (cache_lines (cache ?S) ! cache_index (cache ?S)),
                            ?S\<lparr>cache := (cache ?S)\<lparr>cache_index := cache_index (cache ?S) + 1\<rparr>\<rparr>)) =
   Inr (Some (mk_line 0xE0040010 CHR ''='' (SCRIPT_MAGIC + 1)),
        mk_session stm32f407_scripts (Some ''swo_generic'') swo_generic_lines 4)"
    by code_simp
  from cache_name_case_sensitive [OF h1 h2 h3 h4] e1 e2 show ?thesis by metis
qed

section \<open>Widths and the rendered command\<close>

text \<open>
  C7: every line of every script in a session has size 1, 2 or 4 and one of the four
  operators. This is the invariant \<open>session_ok\<close>: it holds of the initial session, and
  \<^verbatim>\<open>bmscript_clearcache\<close>, \<^verbatim>\<open>bmscript_clear\<close>, a load, a call of the iterator and a call
  of the formatter keep it; in particular every line of the scripts that a load builds
  has size 1, 2 or 4.

  In such a session the formatter renders every line \<open>l\<close> that the iterator returns: the
  size of \<open>l\<close> is 1, 2 or 4, its operator is one of Store, Or, And and AndNot, and when
  the address resolves to \<open>a\<close> (and is not the absent parameter \<^verbatim>\<open>~0\<close>) and the value
  resolves to \<open>v\<close>, the formatter returns, with the same session as the iterator, the
  text \<^verbatim>\<open>set {type}0xaddr op 0xvalue\<close> and a newline, where the type is \<^verbatim>\<open>char\<close>,
  \<^verbatim>\<open>short\<close> or \<^verbatim>\<open>int\<close> for the sizes 1, 2 and 4, the operator text is \<^verbatim>\<open>=\<close>, \<^verbatim>\<open>|=\<close>,
  \<^verbatim>\<open>&=\<close> or \<^verbatim>\<open>&= ~\<close> for Store, Or, And and AndNot, the numbers are in hexadecimal
  and the value is masked to \<open>8 * size\<close> bits.

  Conversely, in any session, every text that the formatter returns is this text for
  the line that the iterator returns, and the text has exactly one newline, its last
  character.
\<close>

theorem widths_and_rendering:
  "session_ok session_init
   \<and> (session_ok st \<longrightarrow>
        session_ok (bmscript_clearcache st) \<and> session_ok (bmscript_clear st)
        \<and> (bmscript_load mcu arch override st = Inr (st1, n) \<longrightarrow>
             session_ok st1
             \<and> (\<forall>s \<in> set (scripts st1). \<forall>i \<in> set (script_lines s).
                    width_ok (line_size i)))
        \<and> (bmscript_line name st = Inr (r, st2) \<longrightarrow> session_ok st2)
        \<and> (bmscript_line_fmt name params st = Inr (t, st3) \<longrightarrow> session_ok st3)
        \<and> (bmscript_line name st = Inr (Some l, st4) \<longrightarrow>
             width_ok (line_size l)
             \<and> (\<exists>op. operator_of (line_oper l) = Some op
                  \<and> (\<forall>a v. replace_param (line_address l) params = Inr a
                           \<and> \<not> (line_address l AND NOT 0xf = SCRIPT_MAGIC \<and> a = NOT 0)
                           \<and> replace_param (line_value l) params = Inr v
                         \<longrightarrow> bmscript_line_fmt name params st
                               = Inr (Some (command_text (line_size l) a op v), st4)))))
   \<and> (bmscript_line_fmt name params st = Inr (Some cmd, st5) \<longrightarrow>
        (\<exists>l a v op.
           bmscript_line name st = Inr (Some l, st5)
           \<and> replace_param (line_address l) params = Inr a
           \<and> \<not> (line_address l AND NOT 0xf = SCRIPT_MAGIC \<and> a = NOT 0)
           \<and> replace_param (line_value l) params = Inr v
           \<and> width_ok (line_size l)
           \<and> operator_of (line_oper l) = Some op
           \<and> cmd = command_text (line_size l) a op v))
   \<and> newlines (command_text w a' op' v') = 1
   \<and> last (command_text w a' op' v') = CHR 0x0A"
proof (intro conjI impI)
  show "session_ok session_init" by (rule session_ok_init)
next
  assume "session_ok st"
  then show "session_ok (bmscript_clearcache st)" by (rule session_ok_clearcache)
next
  show "session_ok (bmscript_clear st)" by (rule session_ok_clear)
next
  assume "session_ok st" and "bmscript_load mcu arch override st = Inr (st1, n)"
  then show "session_ok st1" by (rule session_ok_load)
next
  assume "session_ok st" and "bmscript_load mcu arch override st = Inr (st1, n)"
  then have "session_ok st1" by (rule session_ok_load)
  then show "\<forall>s \<in> set (scripts st1). \<forall>i \<in> set (script_lines s). width_ok (line_size i)"
    by (simp add: session_ok_def scripts_ok_def lines_ok_def line_ok_def list_all_iff)
next
  assume "session_ok st" and "bmscript_line name st = Inr (r, st2)"
  then show "session_ok st2" by (rule session_ok_line)
next
  assume "session_ok st" and "bmscript_line_fmt name params st = Inr (t, st3)"
  then show "session_ok st3" by (rule session_ok_line_fmt)
next
  assume ok: "session_ok st" and l: "bmscript_line name st = Inr (Some l, st4)"
  from ok have "scripts_ok (scripts st)" and "cache_ok st" by (simp_all add: session_ok_def)
  from bmscript_line_ok [OF this l] show "width_ok (line_size l)" by (simp add: line_ok_def)
next
  assume ok: "session_ok st" and l: "bmscript_line name st = Inr (Some l, st4)"
  from ok have "scripts_ok (scripts st)" and "cache_ok st" by (simp_all add: session_ok_def)
  from bmscript_line_ok [OF this l] have w: "width_ok (line_size l)"
    and "operator_of (line_oper l) \<noteq> None"
    by (simp_all add: line_ok_def)
  then obtain op where o: "operator_of (line_oper l) = Some op" by blast
  have "\<forall>a v. replace_param (line_address l) params = Inr a
                           \<and> \<not> (line_address l AND NOT 0xf = SCRIPT_MAGIC \<and> a = NOT 0)
                           \<and> replace_param (line_value l) params = Inr v
                         \<longrightarrow> bmscript_line_fmt name params st
                               = Inr (Some (command_text (line_size l) a op v), st4)"
    using bmscript_line_fmt_emit [OF l w o] by blast
  with o show "\<exists>op. operator_of (line_oper l) = Some op
                  \<and> (\<forall>a v. replace_param (line_address l) params = Inr a
                           \<and> \<not> (line_address l AND NOT 0xf = SCRIPT_MAGIC \<and> a = NOT 0)
                           \<and> replace_param (line_value l) params = Inr v
                         \<longrightarrow> bmscript_line_fmt name params st
                               = Inr (Some (command_text (line_size l) a op v), st4))"
    by blast
next
  assume "bmscript_line_fmt name params st = Inr (Some cmd, st5)"
  then show "\<exists>l a v op.
           bmscript_line name st = Inr (Some l, st5)
           \<and> replace_param (line_address l) params = Inr a
           \<and> \<not> (line_address l AND NOT 0xf = SCRIPT_MAGIC \<and> a = NOT 0)
           \<and> replace_param (line_value l) params = Inr v
           \<and> width_ok (line_size l)
           \<and> operator_of (line_oper l) = Some op
           \<and> cmd = command_text (line_size l) a op v"
    by (rule bmscript_line_fmt_command)
next
  show "newlines (command_text w a' op' v') = 1" by (rule newlines_command_text)
next
  show "last (command_text w a' op' v') = CHR 0x0A"
    by (simp add: command_text_def NL_def)
qed


theorem widths_and_rendering_witness:
  "bmscript_load ''STM32F407'' (Some ''M4'') (Some probe_override) session_init
     = Inr (mk_session probe_scripts None [] 0, 4)
   \<and> session_ok (mk_session probe_scripts None [] 0)
   \<and> list_all (\<lambda>s. list_all (\<lambda>i. width_ok (line_size i)) (script_lines s)) probe_scripts
   \<and> bmscript_line_fmt (Some ''probe'') None (mk_session probe_scripts None [] 0)
       = Inr (Some (''set {short}0x40001000 |= 0x2345'' @ NL),
              mk_session probe_scripts (Some ''probe'') probe_lines 1)
   \<and> bmscript_line_fmt None None (mk_session probe_scripts (Some ''probe'') probe_lines 1)
       = Inr (Some (''set {char}0x40001002 &= 0xf0'' @ NL),
              mk_session probe_scripts (Some ''probe'') probe_lines 2)
   \<and> (\<exists>l a v op.
         bmscript_line None (mk_session probe_scripts (Some ''probe'') probe_lines 1)
           = Inr (Some l, mk_session probe_scripts (Some ''probe'') probe_lines 2)
         \<and> width_ok (line_size l)
         \<and> ''set {char}0x40001002 &= 0xf0'' @ NL = command_text (line_size l) a op v)
   \<and> newlines (''set {char}0x40001002 &= 0xf0'' @ NL) = 1"
proof -
  let ?S0 = "mk_session probe_scripts None [] 0"
  let ?S1 = "mk_session probe_scripts (Some ''probe'') probe_lines 1"
  let ?S2 = "mk_session probe_scripts (Some ''probe'') probe_lines 2"
  let ?L1 = "\<lparr>line_address = 0x40001000, line_value = 0x12345, line_size = 2,
              line_oper = CHR ''|''\<rparr>"
  let ?L2 = "\<lparr>line_address = 0x40001002, line_value = 0xFFFFFEF0, line_size = 1,
              line_oper = CHR ''&''\<rparr>"
  note load = load_probe
  note init = widths_and_rendering [THEN conjunct1]
  from widths_and_rendering [where st = session_init and mcu = "''STM32F407''"
        and arch = "Some ''M4''" and override = "Some probe_override" and ?st1.0 = "?S0"
        and n = 4, THEN conjunct2, THEN conjunct1, THEN mp, OF init,
        THEN conjunct2, THEN conjunct2, THEN conjunct1, THEN mp, OF load]
  have ok0: "session_ok ?S0"
    and w0: "\<forall>s \<in> set (scripts ?S0). \<forall>i \<in> set (script_lines s). width_ok (line_size i)"
    by (rule conjunct1, rule conjunct2)
  have sc: "scripts ?S0 = probe_scripts" by (simp add: mk_session_def)
  have i1: "bmscript_line (Some ''probe'') ?S0 = Inr (Some ?L1, ?S1)" by code_simp
  have r1: "replace_param (line_address ?L1) None = Inr 0x40001000
            \<and> \<not> (line_address ?L1 AND NOT 0xf = SCRIPT_MAGIC \<and> (0x40001000 :: uint32_t) = NOT 0)
            \<and> replace_param (line_value ?L1) None = Inr 0x12345"
    by code_simp
  have o1: "operator_of (line_oper ?L1) = Some Or" by code_simp
  have t1: "command_text (line_size ?L1) 0x40001000 Or 0x12345
              = ''set {short}0x40001000 |= 0x2345'' @ NL"
    by code_simp
  from widths_and_rendering [where st = "?S0" and name = "Some ''probe''" and params = None
      and l = "?L1" and ?st4.0 = "?S1", THEN conjunct2, THEN conjunct1, THEN mp, OF ok0,
      THEN conjunct2, THEN conjunct2, THEN conjunct2, THEN conjunct2, THEN conjunct2,
      THEN mp, OF i1, THEN conjunct2]
  obtain op where "operator_of (line_oper ?L1) = Some op"
    and e: "\<forall>a v. replace_param (line_address ?L1) None = Inr a
                \<and> \<not> (line_address ?L1 AND NOT 0xf = SCRIPT_MAGIC \<and> a = NOT 0)
                \<and> replace_param (line_value ?L1) None = Inr v
              \<longrightarrow> bmscript_line_fmt (Some ''probe'') None ?S0
                    = Inr (Some (command_text (line_size ?L1) a op v), ?S1)"
    by blast
  with o1 have "op = Or" by simp
  with e [THEN spec, THEN spec, THEN mp, OF r1] t1
  have f1: "bmscript_line_fmt (Some ''probe'') None ?S0
       = Inr (Some (''set {short}0x40001000 |= 0x2345'' @ NL), ?S1)"
    by simp
  from widths_and_rendering [where st = "?S0" and name = "Some ''probe''" and params = None
      and t = "Some (''set {short}0x40001000 |= 0x2345'' @ NL)" and ?st3.0 = "?S1",
      THEN conjunct2, THEN conjunct1, THEN mp, OF ok0,
      THEN conjunct2, THEN conjunct2, THEN conjunct2, THEN conjunct2, THEN conjunct1,
      THEN mp, OF f1]
  have ok1: "session_ok ?S1" .
  have i2: "bmscript_line None ?S1 = Inr (Some ?L2, ?S2)" by code_simp
  have r2: "replace_param (line_address ?L2) None = Inr 0x40001002
            \<and> \<not> (line_address ?L2 AND NOT 0xf = SCRIPT_MAGIC \<and> (0x40001002 :: uint32_t) = NOT 0)
            \<and> replace_param (line_value ?L2) None = Inr 0xFFFFFEF0"
    by code_simp
  have o2: "operator_of (line_oper ?L2) = Some And" by code_simp
  have t2: "command_text (line_size ?L2) 0x40001002 And 0xFFFFFEF0
              = ''set {char}0x40001002 &= 0xf0'' @ NL"
    by code_simp
  from widths_and_rendering [where st = "?S1" and name = None and params = None
      and l = "?L2" and ?st4.0 = "?S2", THEN conjunct2, THEN conjunct1, THEN mp, OF ok1,
      THEN conjunct2, THEN conjunct2, THEN conjunct2, THEN conjunct2, THEN conjunct2,
      THEN mp, OF i2, THEN conjunct2]
  obtain op where "operator_of (line_oper ?L2) = Some op"
    and e: "\<forall>a v. replace_param (line_address ?L2) None = Inr a
                \<and> \<not> (line_address ?L2 AND NOT 0xf = SCRIPT_MAGIC \<and> a = NOT 0)
                \<and> replace_param (line_value ?L2) None = Inr v
              \<longrightarrow> bmscript_line_fmt None None ?S1
                    = Inr (Some (command_text (line_size ?L2) a op v), ?S2)"
    by blast
  with o2 have "op = And" by simp
  with e [THEN spec, THEN spec, THEN mp, OF r2] t2
  have f2: "bmscript_line_fmt None None ?S1
       = Inr (Some (''set {char}0x40001002 &= 0xf0'' @ NL), ?S2)"
    by simp
  from widths_and_rendering [where w = "line_size ?L2" and a' = "0x40001002" and op' = And
      and v' = "0xFFFFFEF0", THEN conjunct2, THEN conjunct2, THEN conjunct2,
      THEN conjunct1]
  have n2: "newlines (''set {char}0x40001002 &= 0xf0'' @ NL) = 1"
    by (simp only: t2)
  from widths_and_rendering [where st = "?S1" and name = None and params = None
      and cmd = "''set {char}0x40001002 &= 0xf0'' @ NL" and ?st5.0 = "?S2",
      THEN conjunct2, THEN conjunct2, THEN conjunct1, THEN mp, OF f2]
  have b2: "\<exists>l a v op.
         bmscript_line None ?S1 = Inr (Some l, ?S2)
         \<and> width_ok (line_size l)
         \<and> ''set {char}0x40001002 &= 0xf0'' @ NL = command_text (line_size l) a op v"
    by blast
  from w0 sc have w0':
    "list_all (\<lambda>s. list_all (\<lambda>i. width_ok (line_size i)) (script_lines s)) probe_scripts"
    by (simp add: list_all_iff)
  from load ok0 w0' f1 f2 b2 n2 show ?thesis by (intro conjI)
qed

section \<open>Loading again for the same MCU\<close>

text \<open>
  C8: the loader tests \<^verbatim>\<open>script_root.name\<close> to detect a second load for the same MCU,
  but nothing ever stores the MCU name there, so the test never holds and every load
  clears the session and builds it again. A second load for the same MCU family with
  another architecture therefore changes the scripts and the count: after a load for
  STM32F03 without architecture (3 scripts), a load for STM32F03 with architecture M0
  gives 5 scripts.
\<close>

theorem reload_same_mcu_rebuilds:
  "bmscript_load ''STM32F03'' None None session_init =
     Inr (mk_session stm32f03_scripts None [] 0, 3)
   \<and> bmscript_load ''STM32F03'' (Some ''M0'') None (mk_session stm32f03_scripts None [] 0) =
     Inr (mk_session stm32f03_m0_scripts None [] 0, 5)"
  using load_stm32f03 load_stm32f03_m0 by simp

section \<open>Inversion in the parser\<close>

text \<open>
  C4, as the specification states it: a \<^verbatim>\<open>~\<close> in front of a numeric SRC complements
  the value, and a \<^verbatim>\<open>~\<close> in front of a parameter SRC gives the operator AndNot when
  the operator is And and is a fatal error otherwise. The parser keeps one flag, which
  the operator \<^verbatim>\<open>~\<close> and the \<^verbatim>\<open>~\<close> in front of SRC each toggle. After the operator
  \<^verbatim>\<open>~\<close> a \<^verbatim>\<open>~\<close> in front of SRC therefore clears the flag again: the line
  \<^verbatim>\<open>ITM_TER ~= ~$0\<close> compiles, without error, to the operator And (not AndNot) with
  parameter 0, and \<^verbatim>\<open>GPIOB_MODER ~= ~0x00c0\<close> to And with the value \<^verbatim>\<open>0xc0\<close>, not
  complemented.
\<close>

theorem double_inversion_counterexample:
  "parseline ''ITM_TER ~= ~$0'' (session_registers ''STM32F407'' None) =
     Inr ([], \<lparr>line_address = 0xE0000E00, line_value = SCRIPT_MAGIC + 0, line_size = 4,
               line_oper = CHR ''&''\<rparr>)
   \<and> parseline ''GPIOB_MODER ~= ~0x00c0'' (session_registers ''STM32F407'' None) =
     Inr ([], \<lparr>line_address = 0x40020400, line_value = 0xC0, line_size = 4,
               line_oper = CHR ''&''\<rparr>)"
  by code_simp

text \<open>
  C4, amended. The text behind the destination is an operator character, an optional
  \<^verbatim>\<open>=\<close>, optional white space \<open>ws1\<close>, an optional \<^verbatim>\<open>~\<close> with optional white space
  \<open>ws2\<close>, and SRC. For a numeric SRC: after \<^verbatim>\<open>=\<close>, \<^verbatim>\<open>|\<close> or \<^verbatim>\<open>&\<close> a leading \<^verbatim>\<open>~\<close>
  gives the complement of the number with the operator unchanged; the operator \<^verbatim>\<open>~\<close>
  gives And with the complement; the operator \<^verbatim>\<open>~\<close> with a leading \<^verbatim>\<open>~\<close> gives And
  with the number itself. For a parameter SRC \<^verbatim>\<open>$d\<close>: \<^verbatim>\<open>& ~$d\<close> and \<^verbatim>\<open>~ $d\<close> give
  AndNot (the character \<^verbatim>\<open>~\<close>) with the parameter reference; \<^verbatim>\<open>= ~$d\<close> and
  \<^verbatim>\<open>| ~$d\<close> fail the assertion; \<^verbatim>\<open>~ ~$d\<close> gives And with the parameter reference.
  And the line \<^verbatim>\<open>GPIOB_MODER ~= 0x00c0\<close> compiles for an STM32F407 to And, address
  \<^verbatim>\<open>0x40020400\<close>, value \<^verbatim>\<open>0xFFFFFF3F\<close>, size 4.
\<close>

theorem inversion_flag:
  assumes "list_all le_space ws1" and "list_all le_space ws2" and "eq = [] \<or> eq = ''=''"
  shows
    "(\<not> le_space (nth0 src 0) \<and> nth0 src 0 \<noteq> CHR ''$'' \<and> oper \<in> {CHR ''='', CHR ''|'', CHR ''&''}
        \<longrightarrow> parse_source (oper # eq @ ws1 @ ''~'' @ ws2 @ src) =
              Inr (snd (strtoul src), oper, NOT (word_of_nat (fst (strtoul src)))))
     \<and> (\<not> le_space (nth0 src 0) \<and> nth0 src 0 \<notin> {CHR ''$'', CHR ''='', CHR ''~''}
        \<longrightarrow> parse_source (CHR ''~'' # eq @ ws1 @ src) =
              Inr (snd (strtoul src), CHR ''&'', NOT (word_of_nat (fst (strtoul src)))))
     \<and> (\<not> le_space (nth0 src 0) \<and> nth0 src 0 \<noteq> CHR ''$''
        \<longrightarrow> parse_source (CHR ''~'' # eq @ ws1 @ ''~'' @ ws2 @ src) =
              Inr (snd (strtoul src), CHR ''&'', word_of_nat (fst (strtoul src))))
     \<and> parse_source (CHR ''&'' # eq @ ws1 @ ''~'' @ ws2 @ CHR ''$'' # d # rest) =
          Inr (rest, CHR ''~'', param_ref d)
     \<and> parse_source (CHR ''~'' # eq @ ws1 @ CHR ''$'' # d # rest) =
          Inr (rest, CHR ''~'', param_ref d)
     \<and> parse_source (CHR ''='' # eq @ ws1 @ ''~'' @ ws2 @ CHR ''$'' # d # rest) = Inl AssertFail
     \<and> parse_source (CHR ''|'' # eq @ ws1 @ ''~'' @ ws2 @ CHR ''$'' # d # rest) = Inl AssertFail
     \<and> parse_source (CHR ''~'' # eq @ ws1 @ ''~'' @ ws2 @ CHR ''$'' # d # rest) =
          Inr (rest, CHR ''&'', param_ref d)
     \<and> parseline ''GPIOB_MODER ~= 0x00c0'' (session_registers ''STM32F407'' None) =
          Inr ([], \<lparr>line_address = 0x40020400, line_value = 0xFFFFFF3F, line_size = 4,
                    line_oper = CHR ''&''\<rparr>)"
proof -
  note t = parse_oper_tilde_src [OF assms(1,2,3)]
  note p = parse_oper_plain_src [OF assms(1,3)]
  have d: "\<not> le_space (nth0 (CHR ''$'' # d # rest) 0)" by (simp add: le_space_def)
  have n1: "parse_source (oper # eq @ ws1 @ ''~'' @ ws2 @ src) =
              Inr (snd (strtoul src), oper, NOT (word_of_nat (fst (strtoul src))))"
    if "\<not> le_space (nth0 src 0) \<and> nth0 src 0 \<noteq> CHR ''$'' \<and> oper \<in> {CHR ''='', CHR ''|'', CHR ''&''}"
    using that t [of oper src] by (auto simp: parse_source_def parse_value_numeric)
  have n2: "parse_source (CHR ''~'' # eq @ ws1 @ src) =
              Inr (snd (strtoul src), CHR ''&'', NOT (word_of_nat (fst (strtoul src))))"
    if "\<not> le_space (nth0 src 0) \<and> nth0 src 0 \<notin> {CHR ''$'', CHR ''='', CHR ''~''}"
    using that p [of "CHR ''~''" src] by (auto simp: parse_source_def parse_value_numeric)
  have n3: "parse_source (CHR ''~'' # eq @ ws1 @ ''~'' @ ws2 @ src) =
              Inr (snd (strtoul src), CHR ''&'', word_of_nat (fst (strtoul src)))"
    if "\<not> le_space (nth0 src 0) \<and> nth0 src 0 \<noteq> CHR ''$''"
    using that t [of "CHR ''~''" src] by (auto simp: parse_source_def parse_value_numeric)
  have p1: "parse_source (CHR ''&'' # eq @ ws1 @ ''~'' @ ws2 @ CHR ''$'' # d # rest) =
          Inr (rest, CHR ''~'', param_ref d)"
    using t [of "CHR ''&''" "CHR ''$'' # d # rest"] d
    by (simp add: parse_source_def parse_value_param)
  have p2: "parse_source (CHR ''~'' # eq @ ws1 @ CHR ''$'' # d # rest) =
          Inr (rest, CHR ''~'', param_ref d)"
    using p [of "CHR ''~''" "CHR ''$'' # d # rest"] d
    by (simp add: parse_source_def parse_value_param)
  have p3: "parse_source (CHR ''='' # eq @ ws1 @ ''~'' @ ws2 @ CHR ''$'' # d # rest) = Inl AssertFail"
    using t [of "CHR ''=''" "CHR ''$'' # d # rest"] d
    by (simp add: parse_source_def parse_value_param)
  have p4: "parse_source (CHR ''|'' # eq @ ws1 @ ''~'' @ ws2 @ CHR ''$'' # d # rest) = Inl AssertFail"
    using t [of "CHR ''|''" "CHR ''$'' # d # rest"] d
    by (simp add: parse_source_def parse_value_param)
  have p5: "parse_source (CHR ''~'' # eq @ ws1 @ ''~'' @ ws2 @ CHR ''$'' # d # rest) =
          Inr (rest, CHR ''&'', param_ref d)"
    using t [of "CHR ''~''" "CHR ''$'' # d # rest"] d
    by (simp add: parse_source_def parse_value_param)
  have e: "parseline ''GPIOB_MODER ~= 0x00c0'' (session_registers ''STM32F407'' None) =
          Inr ([], \<lparr>line_address = 0x40020400, line_value = 0xFFFFFF3F, line_size = 4,
                    line_oper = CHR ''&''\<rparr>)"
    by code_simp
  from n1 n2 n3 p1 p2 p3 p4 p5 e show ?thesis by (intro conjI impI)
qed

theorem inversion_flag_witness:
  "parse_source ''&= ~$0'' = Inr ([], CHR ''~'', param_ref CHR ''0'')
   \<and> parse_source ''|= ~$0'' = Inl AssertFail
   \<and> parse_source ''|= ~0x00c0'' = Inr ([], CHR ''|'', NOT 0xC0)
   \<and> parse_source ''~= 0x00c0'' = Inr ([], CHR ''&'', NOT 0xC0)
   \<and> parse_source ''~= ~0x00c0'' = Inr ([], CHR ''&'', 0xC0)"
proof -
  have h1: "list_all le_space '' ''" by code_simp
  have h2: "list_all le_space []" by simp
  have h3: "''='' = [] \<or> ''='' = ''=''" by simp
  have h4: "\<not> le_space (nth0 ''0x00c0'' 0) \<and> nth0 ''0x00c0'' 0 \<noteq> CHR ''$''
            \<and> CHR ''|'' \<in> {CHR ''='', CHR ''|'', CHR ''&''}"
    by code_simp
  have h5: "\<not> le_space (nth0 ''0x00c0'' 0)
            \<and> nth0 ''0x00c0'' 0 \<notin> {CHR ''$'', CHR ''='', CHR ''~''}"
    by code_simp
  have s: "strtoul ''0x00c0'' = (0xC0, [])" by code_simp
  note i = inversion_flag [OF h1 h2 h3, of "''0x00c0''" "CHR ''|''" "CHR ''0''" "[]"]
  from i h4 h5 s show ?thesis by simp
qed

section \<open>The matcher\<close>

text \<open>
  C2, as the specification states it: \<^verbatim>\<open>mcu_match\<close> is true exactly when some token
  of the list passes the exact pass or the prefix pass against the family name without
  its architecture suffix. The source copies a token into a buffer of 50 characters and
  skips the tokens that do not fit: for a family name of 50 letters and a list that is
  this very name, the specification's matcher accepts and \<^verbatim>\<open>mcu_match\<close> does not.
\<close>

theorem long_token_counterexample:
  "mcu_match (replicate 50 CHR ''A'') (replicate 50 CHR ''A'') = Inr False
   \<and> matches_spec (replicate 50 CHR ''A'') (replicate 50 CHR ''A'')"
  by code_simp

text \<open>
  C2, amended. Let the family name be non-empty, without white space at its ends (the
  source asserts this) and without an architecture suffix, and let every \<^verbatim>\<open>*\<close> of the
  list be the last character of its token and be followed by a comma, a space or the end
  of the list (the source asserts the latter). Then \<^verbatim>\<open>mcu_match\<close> returns, without a
  failed assertion, the truth value of: some token of fewer than 50 characters has no
  \<^verbatim>\<open>*\<close>, the length of the family name and matching characters (case-insensitive, a
  lower-case \<^verbatim>\<open>x\<close> of the token matching any character), or some token ends in \<^verbatim>\<open>*\<close>
  and either is \<^verbatim>\<open>*\<close> alone or has a prefix of fewer than 50 characters, shorter than
  the family name, that matches the head of the family name.
\<close>

theorem mcu_match_two_passes:
  assumes "mcu_family \<noteq> []" and "\<not> le_space (hd mcu_family)"
    and "\<not> le_space (last mcu_family)" and "\<not> has_arch_suffix mcu_family"
    and "star_followed list" and "star_last list"
  shows "mcu_match mcu_family list = Inr (matches_short mcu_family list)"
proof -
  let ?n = "length mcu_family"
  let ?head = "skipleading list"
  let ?E = "\<lambda>t. length t = ?n \<and> length t < 50 \<and> architecture_match t mcu_family"
  let ?E' = "\<lambda>t. length t < 50 \<and> exact_token mcu_family t"
  let ?P' = "\<lambda>t. length (butlast t) < 50 \<and> prefix_token mcu_family t"
  note ns = no_suffix_namelen [OF assms(4)]
  have sf: "star_followed ?head"
    unfolding skipleading_def by (rule star_followed_dropWhile [OF assms(5)])
  have nE: "\<not> ?E []" using assms(1) by simp
  have nP: "\<not> prefix_item mcu_family ?n []" by (simp add: prefix_item_def)
  have e1: "mcu_match_exact mcu_family ?n ?head = list_ex ?E (tokens list)"
    by (simp only: mcu_match_exact_items list_ex_items_tokens [of ?E, OF nE])
  have e2: "mcu_match_prefix mcu_family ?n ?head
              = Inr (list_ex (prefix_item mcu_family ?n) (tokens list))"
    by (simp only: mcu_match_prefix_items [OF sf]
          list_ex_items_tokens [of "prefix_item mcu_family ?n", OF nP])
  have m: "mcu_match mcu_family list =
             Inr (list_ex ?E (tokens list) \<or> list_ex (prefix_item mcu_family ?n) (tokens list))"
    using assms(1,2,3) by (simp add: mcu_match_def ns(1) e1 e2)
  have "(list_ex ?E (tokens list) \<or> list_ex (prefix_item mcu_family ?n) (tokens list))
          = (\<exists>t\<in>set (tokens list). ?E t \<or> prefix_item mcu_family ?n t)"
    by (auto simp: list_ex_iff)
  also have "\<dots> = (\<exists>t\<in>set (tokens list). ?E' t \<or> ?P' t)"
  proof (rule bex_cong [OF refl])
    fix t assume "t \<in> set (tokens list)"
    with assms(6) have "CHR ''*'' \<notin> set (butlast t)"
      by (simp add: star_last_def list_all_iff)
    then show "(?E t \<or> prefix_item mcu_family ?n t) = (?E' t \<or> ?P' t)"
      by (rule exact_item_token)
  qed
  also have "\<dots> = matches_short mcu_family list"
    by (auto simp: matches_short_def ns(2) list_ex_iff)
  finally show ?thesis using m by simp
qed

theorem mcu_match_two_passes_witness:
  "mcu_match ''STM32F407'' ''STM32F05, STM32F4*,STM32F7*'' = Inr True
   \<and> mcu_match ''LPC1343'' ''LPC8xx,LPC11xx*,LPC11Uxx,LPC12xx,LPC13xx'' = Inr True
   \<and> mcu_match ''LPC1343'' ''LPC15xx, LPC17* ,lpc134'' = Inr False"
proof -
  have f: "''STM32F407'' \<noteq> []" "\<not> le_space (hd ''STM32F407'')"
    "\<not> le_space (last ''STM32F407'')" "\<not> has_arch_suffix ''STM32F407''"
    by code_simp+
  have l: "''LPC1343'' \<noteq> []" "\<not> le_space (hd ''LPC1343'')"
    "\<not> le_space (last ''LPC1343'')" "\<not> has_arch_suffix ''LPC1343''"
    by code_simp+
  have s1: "star_followed ''STM32F05, STM32F4*,STM32F7*''"
    "star_last ''STM32F05, STM32F4*,STM32F7*''"
    by code_simp+
  have s2: "star_followed ''LPC8xx,LPC11xx*,LPC11Uxx,LPC12xx,LPC13xx''"
    "star_last ''LPC8xx,LPC11xx*,LPC11Uxx,LPC12xx,LPC13xx''"
    by code_simp+
  have v1: "matches_short ''STM32F407'' ''STM32F05, STM32F4*,STM32F7*''" by code_simp
  have v2: "matches_short ''LPC1343'' ''LPC8xx,LPC11xx*,LPC11Uxx,LPC12xx,LPC13xx''"
    by code_simp
  have s3: "star_followed ''LPC15xx, LPC17* ,lpc134''" "star_last ''LPC15xx, LPC17* ,lpc134''"
    by code_simp+
  have v3: "\<not> matches_short ''LPC1343'' ''LPC15xx, LPC17* ,lpc134''" by code_simp
  from mcu_match_two_passes [OF f s1] mcu_match_two_passes [OF l s2]
    mcu_match_two_passes [OF l s3] v1 v2 v3
  show ?thesis by simp
qed

end
